theory Spec2Isabelle
  imports Main "HOL-Library.AList"
begin

section \<open>The document\<close>

text \<open>
  The script of the landing page (\<^verbatim>\<open>scripts.js\<close>) works on the browser's document
  through \<^verbatim>\<open>querySelector\<close>, \<^verbatim>\<open>textContent\<close>, \<^verbatim>\<open>innerHTML\<close>,
  \<^verbatim>\<open>placeholder\<close>, \<^verbatim>\<open>classList\<close> and \<^verbatim>\<open>setAttribute\<close>. The document is
  a tree: an element has a tag, a list of class tokens, attributes and child nodes; a
  child is an element or a text node. The root of the tree is the document element.
\<close>

datatype node =
    TextNode string
  | Element string "string list" "(string \<times> string) list" "node list"

fun is_element :: "node \<Rightarrow> bool" where
  "is_element (TextNode _) = False"
| "is_element (Element _ _ _ _) = True"

fun tagName :: "node \<Rightarrow> string" where
  "tagName (TextNode _) = []"
| "tagName (Element tg _ _ _) = tg"

fun classList :: "node \<Rightarrow> string list" where
  "classList (TextNode _) = []"
| "classList (Element _ cl _ _) = cl"

fun attributes :: "node \<Rightarrow> (string \<times> string) list" where
  "attributes (TextNode _) = []"
| "attributes (Element _ _ at _) = at"

fun childNodes :: "node \<Rightarrow> node list" where
  "childNodes (TextNode _) = []"
| "childNodes (Element _ _ _ ch) = ch"

text \<open>
  The selectors the script uses are compounds of a class, an attribute with a value and
  \<^verbatim>\<open>:nth-child(k)\<close>, alone (\<^verbatim>\<open>[data-key="home"]\<close>, \<^verbatim>\<open>.current-lang\<close>,
  \<^verbatim>\<open>.lang-option[data-lang="fr"]\<close>) or after one ancestor compound
  (\<^verbatim>\<open>.stat-item:nth-child(1) .stat-label\<close>).
\<close>

datatype simple_selector = Class string | AttrEq string string | NthChild nat

datatype selector =
    Sel "simple_selector list"
  | Desc "simple_selector list" "simple_selector list"

text \<open>
  \<open>matches_simple i e c\<close>: the element \<open>e\<close>, the \<open>i\<close>-th element child of its parent
  (counted from 1, text nodes not counted), matches the simple selector \<open>c\<close>.
\<close>

fun matches_simple :: "nat \<Rightarrow> node \<Rightarrow> simple_selector \<Rightarrow> bool" where
  "matches_simple i e (Class c) = (c \<in> set (classList e))"
| "matches_simple i e (AttrEq a v) = (map_of (attributes e) a = Some v)"
| "matches_simple i e (NthChild k) = (i = k)"

definition matches_compound :: "nat \<Rightarrow> node \<Rightarrow> simple_selector list \<Rightarrow> bool" where
  "matches_compound i e cs = list_all (matches_simple i e) cs"

text \<open>
  \<open>matches s inside i e\<close>: the element \<open>e\<close> matches the selector \<open>s\<close>, where
  \<open>inside\<close> says that an ancestor of \<open>e\<close> matches the ancestor compound of \<open>s\<close>.
  \<open>enters s inside i e\<close> is that flag for the children of \<open>e\<close>.
\<close>

fun matches :: "selector \<Rightarrow> bool \<Rightarrow> nat \<Rightarrow> node \<Rightarrow> bool" where
  "matches (Sel tgt) inside i e = matches_compound i e tgt"
| "matches (Desc anc tgt) inside i e = (inside \<and> matches_compound i e tgt)"

fun enters :: "selector \<Rightarrow> bool \<Rightarrow> nat \<Rightarrow> node \<Rightarrow> bool" where
  "enters (Sel tgt) inside i e = inside"
| "enters (Desc anc tgt) inside i e = (inside \<or> matches_compound i e anc)"

text \<open>
  \<^verbatim>\<open>querySelector\<close> returns the first matching element in document order. An element
  is referred to by its path from the root: the list of child positions to follow.
  \<open>find_node s inside i n\<close> searches the node \<open>n\<close> (the \<open>i\<close>-th element child of its
  parent) and its descendants; \<open>find_nodes s inside i k ns\<close> searches the siblings
  \<open>ns\<close>, the first of which is at child position \<open>k\<close> and, when an element, the
  \<open>i\<close>-th element child.
\<close>

fun find_node :: "selector \<Rightarrow> bool \<Rightarrow> nat \<Rightarrow> node \<Rightarrow> nat list option"
  and find_nodes :: "selector \<Rightarrow> bool \<Rightarrow> nat \<Rightarrow> nat \<Rightarrow> node list \<Rightarrow> nat list option" where
  "find_node s inside i (TextNode t) = None"
| "find_node s inside i (Element tg cl at ch) =
     (if matches s inside i (Element tg cl at ch) then Some []
      else find_nodes s (enters s inside i (Element tg cl at ch)) 1 0 ch)"
| "find_nodes s inside i k [] = None"
| "find_nodes s inside i k (n # ns) =
     (case find_node s inside i n of
        Some p \<Rightarrow> Some (k # p)
      | None \<Rightarrow> find_nodes s inside (if is_element n then Suc i else i) (Suc k) ns)"

definition querySelector :: "selector \<Rightarrow> node \<Rightarrow> nat list option" where
  "querySelector s doc = find_node s False 1 doc"

text \<open>
  \<^verbatim>\<open>querySelectorAll\<close> returns every matching element, in document order.
\<close>

fun all_node :: "selector \<Rightarrow> bool \<Rightarrow> nat \<Rightarrow> node \<Rightarrow> nat list list"
  and all_nodes :: "selector \<Rightarrow> bool \<Rightarrow> nat \<Rightarrow> nat \<Rightarrow> node list \<Rightarrow> nat list list" where
  "all_node s inside i (TextNode t) = []"
| "all_node s inside i (Element tg cl at ch) =
     (if matches s inside i (Element tg cl at ch) then [[]] else []) @
     all_nodes s (enters s inside i (Element tg cl at ch)) 1 0 ch"
| "all_nodes s inside i k [] = []"
| "all_nodes s inside i k (n # ns) =
     map ((#) k) (all_node s inside i n) @
     all_nodes s inside (if is_element n then Suc i else i) (Suc k) ns"

definition querySelectorAll :: "selector \<Rightarrow> node \<Rightarrow> nat list list" where
  "querySelectorAll s doc = all_node s False 1 doc"

text \<open>
  A write through an element reference: \<open>modify p f doc\<close> applies \<open>f\<close> to the node at
  path \<open>p\<close>.
\<close>

fun modify :: "nat list \<Rightarrow> (node \<Rightarrow> node) \<Rightarrow> node \<Rightarrow> node" where
  "modify [] f n = f n"
| "modify (k # p) f (TextNode t) = TextNode t"
| "modify (k # p) f (Element tg cl at ch) =
     (if k < length ch then Element tg cl at (ch[k := modify p f (ch ! k)])
      else Element tg cl at ch)"

fun node_at :: "nat list \<Rightarrow> node \<Rightarrow> node option" where
  "node_at [] n = Some n"
| "node_at (k # p) (TextNode t) = None"
| "node_at (k # p) (Element tg cl at ch) =
     (if k < length ch then node_at p (ch ! k) else None)"

subsection \<open>Element properties\<close>

text \<open>
  Assigning \<^verbatim>\<open>textContent\<close> (or \<^verbatim>\<open>innerText\<close>, for a string without line breaks)
  replaces the children of the element by one text node; assigning \<^verbatim>\<open>innerHTML\<close>
  replaces them by the nodes the browser's HTML parser makes of the string. The parser
  is not part of the script: it is a parameter, \<open>parse\<close>. \<^verbatim>\<open>placeholder\<close> is a
  property of \<^verbatim>\<open>input\<close> and \<^verbatim>\<open>textarea\<close> elements, where it sets the attribute
  of that name; assigned on any other element it is a property of the script's object
  only, and the document stays as it is.
\<close>

type_synonym html_parser = "string \<Rightarrow> node list"

fun set_children :: "node list \<Rightarrow> node \<Rightarrow> node" where
  "set_children new (TextNode t) = TextNode t"
| "set_children new (Element tg cl at ch) = Element tg cl at new"

definition set_textContent :: "string \<Rightarrow> node \<Rightarrow> node" where
  "set_textContent v = set_children [TextNode v]"

definition set_innerHTML :: "html_parser \<Rightarrow> string \<Rightarrow> node \<Rightarrow> node" where
  "set_innerHTML parse v = set_children (parse v)"

fun setAttribute :: "string \<Rightarrow> string \<Rightarrow> node \<Rightarrow> node" where
  "setAttribute a v (TextNode t) = TextNode t"
| "setAttribute a v (Element tg cl at ch) = Element tg cl (AList.update a v at) ch"

definition set_placeholder :: "string \<Rightarrow> node \<Rightarrow> node" where
  "set_placeholder v e =
     (if tagName e = ''input'' \<or> tagName e = ''textarea''
      then setAttribute ''placeholder'' v e else e)"

text \<open>
  A \<^verbatim>\<open>classList\<close> is a list of distinct tokens: \<^verbatim>\<open>remove\<close> takes the token
  out, \<^verbatim>\<open>add\<close> appends it when it is not there.
\<close>

definition remove_token :: "string \<Rightarrow> string list \<Rightarrow> string list" where
  "remove_token c cl = filter (\<lambda>x. x \<noteq> c) cl"

definition add_token :: "string \<Rightarrow> string list \<Rightarrow> string list" where
  "add_token c cl = (if c \<in> set cl then cl else cl @ [c])"

fun classList_remove :: "string \<Rightarrow> node \<Rightarrow> node" where
  "classList_remove c (TextNode t) = TextNode t"
| "classList_remove c (Element tg cl at ch) = Element tg (remove_token c cl) at ch"

fun classList_add :: "string \<Rightarrow> node \<Rightarrow> node" where
  "classList_add c (TextNode t) = TextNode t"
| "classList_add c (Element tg cl at ch) = Element tg (add_token c cl) at ch"

definition getAttribute :: "string \<Rightarrow> node \<Rightarrow> string option" where
  "getAttribute a e = map_of (attributes e) a"

section \<open>The translation manager\<close>

text \<open>
  A translation resource is the object parsed from \<^verbatim>\<open>lang/<code>.json\<close>: a flat
  table from key to string. A key the table lacks reads as \<^verbatim>\<open>undefined\<close>, here
  \<open>None\<close>. The manager holds the current language and the table of loaded resources;
  the state also holds what the script acts on: the document, the console and the
  requests sent with \<^verbatim>\<open>fetch\<close>.

  A resource is an object, so a stored resource is truthy and \<^verbatim>\<open>!this.translations[lang]\<close>
  holds exactly when none is stored for \<open>lang\<close>; its values are strings, so the only
  falsy ones are the missing and the empty. A language code is a string (the
  \<^verbatim>\<open>data-lang\<close> of an option) that is no property name of \<^verbatim>\<open>Object.prototype\<close>
  and needs no escaping inside the quotes of a selector.
\<close>

type_synonym resource = "string \<Rightarrow> string option"

text \<open>The field \<^verbatim>\<open>translations\<close> of the source is \<open>translationsMap\<close> here.\<close>

record state =
  currentLang :: string
  translationsMap :: "string \<Rightarrow> resource option"
  document :: node
  console :: "string list"
  requests :: "string list"

text \<open>
  What a request comes back with: the promise of \<^verbatim>\<open>fetch\<close> is rejected, or there is
  a response with its \<^verbatim>\<open>ok\<close> flag, its status and the result of \<^verbatim>\<open>response.json()\<close>
  (\<open>None\<close> when the body does not parse). The network is a function from the
  address requested to that outcome. An \<^verbatim>\<open>await\<close> is modelled as a call that
  returns: one operation runs to its end before the next starts.
\<close>

datatype response = NetworkError | Response bool nat "resource option"

type_synonym network = "string \<Rightarrow> response"

datatype error = TypeError

datatype 'a outcome = Returned 'a | Threw error 'a

fun state_of :: "'a outcome \<Rightarrow> 'a" where
  "state_of (Returned s) = s"
| "state_of (Threw e s) = s"

definition resource_url :: "string \<Rightarrow> string" where
  "resource_url lang = ''lang/'' @ lang @ ''.json''"

definition load_failed :: "string \<Rightarrow> state \<Rightarrow> state" where
  "load_failed lang s =
     s\<lparr>console := console s @ [''Failed to load language file for '' @ lang @ '':'']\<rparr>"

definition loadLanguage :: "network \<Rightarrow> string \<Rightarrow> state \<Rightarrow> state" where
  "loadLanguage net lang s =
     (let s1 = s\<lparr>requests := requests s @ [resource_url lang]\<rparr> in
      case net (resource_url lang) of
        NetworkError \<Rightarrow> load_failed lang s1
      | Response ok status body \<Rightarrow>
          if \<not> ok then load_failed lang s1
          else (case body of
                  None \<Rightarrow> load_failed lang s1
                | Some r \<Rightarrow> s1\<lparr>translationsMap := (translationsMap s1)(lang \<mapsto> r),
                               currentLang := lang\<rparr>))"

subsection \<open>Region synchronisation\<close>

datatype update_type = Text | Html | Placeholder

text \<open>
  \<^verbatim>\<open>updateElement(selector, content, type)\<close>: \<open>content\<close> is \<open>None\<close> for
  \<^verbatim>\<open>undefined\<close>; the empty string is the other falsy value a resource can hold.
\<close>

definition truthy :: "string option \<Rightarrow> bool" where
  "truthy content = (case content of None \<Rightarrow> False | Some v \<Rightarrow> v \<noteq> [])"

fun write_content :: "html_parser \<Rightarrow> update_type \<Rightarrow> string \<Rightarrow> node \<Rightarrow> node" where
  "write_content parse Html v = set_innerHTML parse v"
| "write_content parse Placeholder v = set_placeholder v"
| "write_content parse Text v = set_textContent v"

definition updateElement ::
  "html_parser \<Rightarrow> selector \<Rightarrow> string option \<Rightarrow> update_type \<Rightarrow> node \<Rightarrow> node" where
  "updateElement parse selector content type doc =
     (case querySelector selector doc of
        None \<Rightarrow> doc
      | Some element \<Rightarrow>
          (case content of
             None \<Rightarrow> doc
           | Some v \<Rightarrow> if v = [] then doc
                      else modify element (write_content parse type v) doc))"

definition data_key :: "string \<Rightarrow> selector" where
  "data_key k = Sel [AttrEq ''data-key'' k]"

definition stat_label :: "nat \<Rightarrow> selector" where
  "stat_label n = Desc [Class ''stat-item'', NthChild n] [Class ''stat-label'']"

text \<open>
  The calls of \<^verbatim>\<open>updateUI\<close>, in the order of the source: selector, key of the
  resource, type of update.
\<close>

definition bindings :: "(selector \<times> string \<times> update_type) list" where
  "bindings =
    [
     (data_key ''home'', ''home'', Text), (data_key ''features'', ''features'', Text),
     (data_key ''about'', ''about'', Text), (data_key ''contact'', ''contact'', Text),
     (data_key ''hero_title'', ''hero_title'', Html),
     (data_key ''hero_description'', ''hero_description'', Text),
     (data_key ''hero_cta'', ''hero_cta'', Text),
     (data_key ''hero_demo'', ''hero_demo'', Text),
     (data_key ''launch_countdown'', ''launch_countdown'', Text),
     (data_key ''days_label'', ''days_label'', Text),
     (data_key ''hours_label'', ''hours_label'', Text),
     (data_key ''minutes_label'', ''minutes_label'', Text),
     (data_key ''seconds_label'', ''seconds_label'', Text),
     (data_key ''features_title'', ''features_title'', Text),
     (data_key ''features_description'', ''features_description'', Text),
     (data_key ''gallery_title'', ''gallery_title'', Text),
     (data_key ''gallery_description'', ''gallery_description'', Text),
     (data_key ''all_gallery'', ''all_gallery'', Text),
     (data_key ''men_gallery'', ''men_gallery'', Text),
     (data_key ''women_gallery'', ''women_gallery'', Text),
     (data_key ''salons_gallery'', ''salons_gallery'', Text),
     (data_key ''gallery_caption1'', ''gallery_caption1'', Text),
     (data_key ''gallery_desc1'', ''gallery_desc1'', Text),
     (data_key ''gallery_caption2'', ''gallery_caption2'', Text),
     (data_key ''gallery_desc2'', ''gallery_desc2'', Text),
     (data_key ''gallery_caption3'', ''gallery_caption3'', Text),
     (data_key ''gallery_desc3'', ''gallery_desc3'', Text),
     (data_key ''gallery_caption4'', ''gallery_caption4'', Text),
     (data_key ''gallery_desc4'', ''gallery_desc4'', Text),
     (data_key ''gallery_caption5'', ''gallery_caption5'', Text),
     (data_key ''gallery_desc5'', ''gallery_desc5'', Text),
     (data_key ''gallery_caption6'', ''gallery_caption6'', Text),
     (data_key ''gallery_desc6'', ''gallery_desc6'', Text),
     (data_key ''view_all_gallery'', ''view_all_gallery'', Text),
     (data_key ''testimonials_title'', ''testimonials_title'', Text),
     (data_key ''testimonials_description'', ''testimonials_description'', Text),
     (data_key ''verified'', ''verified'', Text), (stat_label 1, ''customer_rating'', Text),
     (stat_label 2, ''happy_customers'', Text), (stat_label 3, ''recommend_us'', Text),
     (data_key ''cta_title'', ''cta_title'', Text),
     (data_key ''cta_description'', ''cta_description'', Text),
     (data_key ''cta_placeholder'', ''cta_placeholder'', Placeholder),
     (data_key ''cta_button'', ''cta_button'', Text),
     (data_key ''footer_title'', ''footer_title'', Text),
     (data_key ''footer_description'', ''footer_description'', Html),
     (data_key ''copyright'', ''copyright'', Html),
     (data_key ''quick_links'', ''quick_links'', Text),
     (data_key ''services'', ''services'', Text),
     (data_key ''contact_us'', ''contact_us'', Text),
     (data_key ''feature1_title'', ''feature1_title'', Text),
     (data_key ''feature1_desc'', ''feature1_desc'', Text),
     (data_key ''feature2_title'', ''feature2_title'', Text),
     (data_key ''feature2_desc'', ''feature2_desc'', Text),
     (data_key ''feature3_title'', ''feature3_title'', Text),
     (data_key ''feature3_desc'', ''feature3_desc'', Text),
     (data_key ''feature4_title'', ''feature4_title'', Text),
     (data_key ''feature4_desc'', ''feature4_desc'', Text),
     (data_key ''feature5_title'', ''feature5_title'', Text),
     (data_key ''feature5_desc'', ''feature5_desc'', Text),
     (data_key ''feature6_title'', ''feature6_title'', Text),
     (data_key ''feature6_desc'', ''feature6_desc'', Text),
     (data_key ''testimonial1_text'', ''testimonial1_text'', Text),
     (data_key ''testimonial1_name'', ''testimonial1_name'', Text),
     (data_key ''testimonial1_role'', ''testimonial1_role'', Text),
     (data_key ''testimonial2_text'', ''testimonial2_text'', Text),
     (data_key ''testimonial2_name'', ''testimonial2_name'', Text),
     (data_key ''testimonial2_role'', ''testimonial2_role'', Text),
     (data_key ''testimonial3_text'', ''testimonial3_text'', Text),
     (data_key ''testimonial3_name'', ''testimonial3_name'', Text),
     (data_key ''testimonial3_role'', ''testimonial3_role'', Text),
     (data_key ''home_footer'', ''home_footer'', Text),
     (data_key ''about_footer'', ''about_footer'', Text),
     (data_key ''features_footer'', ''features_footer'', Text),
     (data_key ''privacy'', ''privacy'', Text), (data_key ''terms'', ''terms'', Text),
     (data_key ''service1'', ''service1'', Text),
     (data_key ''service2'', ''service2'', Text),
     (data_key ''service3'', ''service3'', Text),
     (data_key ''service4'', ''service4'', Text),
     (data_key ''service5'', ''service5'', Text), (data_key ''address'', ''address'', Text),
     (data_key ''phone'', ''phone'', Text), (data_key ''email'', ''email'', Text)
    ]"

definition apply_binding ::
  "html_parser \<Rightarrow> resource \<Rightarrow> selector \<times> string \<times> update_type \<Rightarrow> node \<Rightarrow> node" where
  "apply_binding parse t b doc =
     (case b of (selector, key, type) \<Rightarrow> updateElement parse selector (t key) type doc)"

definition sync_regions ::
  "html_parser \<Rightarrow> resource \<Rightarrow> (selector \<times> string \<times> update_type) list \<Rightarrow> node \<Rightarrow> node" where
  "sync_regions parse t bs doc = fold (apply_binding parse t) bs doc"

definition updateUI :: "html_parser \<Rightarrow> state \<Rightarrow> state" where
  "updateUI parse s =
     (case translationsMap s (currentLang s) of
        None \<Rightarrow>
          s\<lparr>console := console s @ [''No translations found for language: '' @ currentLang s]\<rparr>
      | Some t \<Rightarrow> s\<lparr>document := sync_regions parse t bindings (document s)\<rparr>)"

subsection \<open>Changing the language\<close>

definition label_ar :: string where
  "label_ar = [CHR 0xD8, CHR 0xA7, CHR 0xD9, CHR 0x84, CHR 0xD8, CHR 0xB9, CHR 0xD8, CHR 0xB1,
               CHR 0xD8, CHR 0xA8, CHR 0xD9, CHR 0x8A, CHR 0xD8, CHR 0xA9]"

definition label_fr :: string where
  "label_fr = ''Fran'' @ [CHR 0xC3, CHR 0xA7] @ ''ais''"

definition label_en :: string where
  "label_en = ''English''"

text \<open>
  \<^verbatim>\<open>document.body\<close>: the first child of the \<^verbatim>\<open>html\<close> root that is a
  \<^verbatim>\<open>body\<close> or a \<^verbatim>\<open>frameset\<close>; \<^verbatim>\<open>null\<close> when there is none.
\<close>

fun first_body :: "nat \<Rightarrow> node list \<Rightarrow> nat option" where
  "first_body k [] = None"
| "first_body k (n # ns) =
     (if is_element n \<and> (tagName n = ''body'' \<or> tagName n = ''frameset'') then Some k
      else first_body (Suc k) ns)"

definition body :: "node \<Rightarrow> nat list option" where
  "body doc =
     (if is_element doc \<and> tagName doc = ''html''
      then map_option (\<lambda>k. [k]) (first_body 0 (childNodes doc)) else None)"

definition body_element :: "node \<Rightarrow> node option" where
  "body_element doc = (case body doc of None \<Rightarrow> None | Some b \<Rightarrow> node_at b doc)"

definition body_dir :: "node \<Rightarrow> string option" where
  "body_dir doc = (case body_element doc of None \<Rightarrow> None | Some e \<Rightarrow> getAttribute ''dir'' e)"

definition body_has_class :: "string \<Rightarrow> node \<Rightarrow> bool" where
  "body_has_class c doc =
     (case body_element doc of None \<Rightarrow> False | Some e \<Rightarrow> c \<in> set (classList e))"

definition mark_active_option :: "string \<Rightarrow> node \<Rightarrow> node" where
  "mark_active_option lang doc =
     (let d = fold (\<lambda>option. modify option (classList_remove ''active''))
                (querySelectorAll (Sel [Class ''lang-option'']) doc) doc
      in case querySelector (Sel [Class ''lang-option'', AttrEq ''data-lang'' lang]) d of
           None \<Rightarrow> d
         | Some activeOption \<Rightarrow> modify activeOption (classList_add ''active'') d)"

definition show_current_lang :: "string \<Rightarrow> node \<Rightarrow> node" where
  "show_current_lang lang doc =
     (case querySelector (Sel [Class ''current-lang'']) doc of
        None \<Rightarrow> doc
      | Some langText \<Rightarrow>
          (let d1 = (if lang = ''ar'' then modify langText (set_textContent label_ar) doc else doc);
               d2 = (if lang = ''fr'' then modify langText (set_textContent label_fr) d1 else d1)
           in if lang = ''en'' then modify langText (set_textContent label_en) d2 else d2))"

definition set_direction :: "string \<Rightarrow> nat list \<Rightarrow> node \<Rightarrow> node" where
  "set_direction lang b doc =
     (if lang = ''ar''
      then modify b (setAttribute ''dir'' ''rtl'') (modify b (classList_remove ''ltr'') doc)
      else modify b (setAttribute ''dir'' ''ltr'') (modify b (classList_add ''ltr'') doc))"

definition close_dropdown :: "node \<Rightarrow> node" where
  "close_dropdown doc =
     (case querySelector (Sel [Class ''lang-dropdown'']) doc of
        None \<Rightarrow> doc
      | Some dropdown \<Rightarrow> modify dropdown (classList_remove ''show'') doc)"

text \<open>
  \<^verbatim>\<open>changeLanguage(lang)\<close>. Reading \<^verbatim>\<open>document.body.classList\<close> throws a
  TypeError when the document has no body; what was written before stays written.
\<close>

definition changeLanguage :: "html_parser \<Rightarrow> network \<Rightarrow> string \<Rightarrow> state \<Rightarrow> state outcome" where
  "changeLanguage parse net lang s =
     (if lang \<noteq> currentLang s then
        (let s1 = (if translationsMap s lang = None then loadLanguage net lang s else s);
             s2 = s1\<lparr>currentLang := lang\<rparr>;
             s3 = updateUI parse s2;
             d = show_current_lang lang (mark_active_option lang (document s3))
         in case body d of
              None \<Rightarrow> Threw TypeError (s3\<lparr>document := d\<rparr>)
            | Some b \<Rightarrow>
                Returned (s3\<lparr>document := close_dropdown (set_direction lang b d)\<rparr>))
      else Returned s)"

text \<open>
  A session after start-up is a sequence of clicks on language options, each with the
  network as it answers at that moment. An operation that threw leaves its state to the
  next event.
\<close>

fun run_session :: "html_parser \<Rightarrow> (network \<times> string) list \<Rightarrow> state \<Rightarrow> state" where
  "run_session parse [] s = s"
| "run_session parse ((net, lang) # es) s =
     run_session parse es (state_of (changeLanguage parse net lang s))"

section \<open>The testimonial slider\<close>

text \<open>
  \<^verbatim>\<open>initTestimonialSlider\<close> keeps the slides found at start-up (distinct elements)
  and the index of the current one; its handlers touch nothing of a slide but its class
  list, so a slide is its list of class tokens here. JavaScript's \<^verbatim>\<open>%\<close> takes the sign of the dividend and
  gives \<^verbatim>\<open>NaN\<close> for a zero divisor (\<open>None\<close>); \<^verbatim>\<open>slides[index]\<close> is
  \<^verbatim>\<open>undefined\<close> outside the list and for \<^verbatim>\<open>NaN\<close>, and reading its
  \<^verbatim>\<open>classList\<close> throws a TypeError.
\<close>

record slider =
  slides :: "string list list"
  currentSlide :: int

definition js_rem :: "int \<Rightarrow> int \<Rightarrow> int" where
  "js_rem a b = sgn a * (\<bar>a\<bar> mod \<bar>b\<bar>)"

definition js_mod :: "int \<Rightarrow> int \<Rightarrow> int option" where
  "js_mod a b = (if b = 0 then None else Some (js_rem a b))"

definition initTestimonialSlider :: "string list list \<Rightarrow> slider" where
  "initTestimonialSlider found = \<lparr>slides = found, currentSlide = 0\<rparr>"

definition slideCount :: "slider \<Rightarrow> int" where
  "slideCount s = int (length (slides s))"

definition showSlide :: "int option \<Rightarrow> slider \<Rightarrow> slider outcome" where
  "showSlide index s =
     (let cleared = map (remove_token ''active'') (slides s) in
      case index of
        None \<Rightarrow> Threw TypeError (s\<lparr>slides := cleared\<rparr>)
      | Some i \<Rightarrow>
          if 0 \<le> i \<and> i < int (length cleared)
          then Returned (s\<lparr>slides := cleared[nat i := add_token ''active'' (cleared ! nat i)],
                           currentSlide := i\<rparr>)
          else Threw TypeError (s\<lparr>slides := cleared\<rparr>))"

definition next_click :: "slider \<Rightarrow> slider outcome" where
  "next_click s = showSlide (js_mod (currentSlide s + 1) (slideCount s)) s"

definition prev_click :: "slider \<Rightarrow> slider outcome" where
  "prev_click s = showSlide (js_mod (currentSlide s - 1 + slideCount s) (slideCount s)) s"

definition auto_advance :: "slider \<Rightarrow> slider outcome" where
  "auto_advance s = showSlide (js_mod (currentSlide s + 1) (slideCount s)) s"

datatype slider_event = NextClick | PrevClick | TimerTick

fun slider_step :: "slider_event \<Rightarrow> slider \<Rightarrow> slider outcome" where
  "slider_step NextClick s = next_click s"
| "slider_step PrevClick s = prev_click s"
| "slider_step TimerTick s = auto_advance s"

fun slider_run :: "slider_event list \<Rightarrow> slider \<Rightarrow> slider" where
  "slider_run [] s = s"
| "slider_run (e # es) s = slider_run es (state_of (slider_step e s))"

definition active_slides :: "slider \<Rightarrow> nat list" where
  "active_slides s = filter (\<lambda>j. ''active'' \<in> set (slides s ! j)) [0..<length (slides s)]"

section \<open>The countdown\<close>

text \<open>
  One tick of \<^verbatim>\<open>updateCountdown\<close> reads the clock twice (\<^verbatim>\<open>new Date()\<close>, in
  milliseconds): once for the launch date, once for \<^verbatim>\<open>now\<close>.
  \<^verbatim>\<open>setDate(getDate() + 30)\<close> moves the first reading 30 calendar days ahead in
  local time: 30 times 24 hours, and the change of the local offset from UTC between
  the two days (\<open>zone_shift\<close>, zero unless daylight saving starts or ends in between).
\<close>

record tick =
  launch_read :: int
  zone_shift :: int
  now_read :: int

definition digit_char :: "nat \<Rightarrow> char" where
  "digit_char d = ''0123456789'' ! d"

fun digits :: "nat \<Rightarrow> string" where
  "digits n = (if n < 10 then [digit_char n] else digits (n div 10) @ [digit_char (n mod 10)])"

declare digits.simps [simp del]

definition toString :: "int \<Rightarrow> string" where
  "toString i = (if i < 0 then CHR ''-'' # digits (nat (- i)) else digits (nat i))"

definition padStart2 :: "string \<Rightarrow> string" where
  "padStart2 s = replicate (2 - length s) CHR ''0'' @ s"

definition remaining :: "tick \<Rightarrow> int" where
  "remaining tk =
     (let launchDate = launch_read tk + 30 * (1000 * 60 * 60 * 24) + zone_shift tk;
          now = now_read tk
      in launchDate - now)"

definition countdown_fields :: "tick \<Rightarrow> int \<times> int \<times> int \<times> int" where
  "countdown_fields tk =
     (let diff = remaining tk;
          days = diff div (1000 * 60 * 60 * 24);
          hours = js_rem diff (1000 * 60 * 60 * 24) div (1000 * 60 * 60);
          minutes = js_rem diff (1000 * 60 * 60) div (1000 * 60);
          seconds = js_rem diff (1000 * 60) div 1000
      in (days, hours, minutes, seconds))"

definition getElementById :: "string \<Rightarrow> node \<Rightarrow> nat list option" where
  "getElementById i doc = querySelector (Sel [AttrEq ''id'' i]) doc"

definition set_innerText :: "nat list option \<Rightarrow> string \<Rightarrow> node \<Rightarrow> node" where
  "set_innerText element v doc =
     (case element of None \<Rightarrow> doc | Some p \<Rightarrow> modify p (set_textContent v) doc)"

definition countdown_text :: "tick \<Rightarrow> string \<times> string \<times> string \<times> string" where
  "countdown_text tk =
     (case countdown_fields tk of (days, hours, minutes, seconds) \<Rightarrow>
        (padStart2 (toString days), padStart2 (toString hours),
         padStart2 (toString minutes), padStart2 (toString seconds)))"

definition updateCountdown :: "tick \<Rightarrow> node \<Rightarrow> node" where
  "updateCountdown tk doc =
     (case countdown_text tk of (days, hours, minutes, seconds) \<Rightarrow>
        (let daysElement = getElementById ''days'' doc;
             hoursElement = getElementById ''hours'' doc;
             minutesElement = getElementById ''minutes'' doc;
             secondsElement = getElementById ''seconds'' doc
         in set_innerText secondsElement seconds
              (set_innerText minutesElement minutes
                 (set_innerText hoursElement hours
                    (set_innerText daysElement days doc)))))"

text \<open>
  \<^verbatim>\<open>startCountdown\<close> runs \<^verbatim>\<open>updateCountdown\<close> once and then at every tick of the
  interval timer.
\<close>

definition startCountdown :: "tick list \<Rightarrow> node \<Rightarrow> node" where
  "startCountdown ticks doc = fold updateCountdown ticks doc"

section \<open>Notions used in the statements and proofs\<close>

subsection \<open>Regions that do not contain one another\<close>

text \<open>
  An element is \<open>marked\<close> for a list of selectors when it carries what the last
  compound of one of them asks for (its classes and attribute values; its position among
  its siblings and its ancestors are not looked at): for the selectors of \<open>bindings\<close>,
  a \<^verbatim>\<open>data-key\<close> of a bound key or the class \<^verbatim>\<open>stat-label\<close>. A subtree is
  \<open>unmarked\<close> when it holds no marked element; a document has \<open>regions_flat\<close> when
  no marked element lies inside another. \<open>plain_markup\<close> says that the markup values of
  a resource parse to unmarked nodes.
\<close>

fun target :: "selector \<Rightarrow> simple_selector list" where
  "target (Sel tgt) = tgt"
| "target (Desc anc tgt) = tgt"

fun marks :: "node \<Rightarrow> simple_selector \<Rightarrow> bool" where
  "marks e (Class c) = (c \<in> set (classList e))"
| "marks e (AttrEq a v) = (map_of (attributes e) a = Some v)"
| "marks e (NthChild k) = True"

definition marked :: "selector list \<Rightarrow> node \<Rightarrow> bool" where
  "marked sels e = (is_element e \<and> list_ex (\<lambda>s. list_all (marks e) (target s)) sels)"

fun unmarked :: "selector list \<Rightarrow> node \<Rightarrow> bool" where
  "unmarked sels (TextNode t) = True"
| "unmarked sels (Element tg cl at ch) =
     (\<not> marked sels (Element tg cl at ch) \<and> list_all (unmarked sels) ch)"

fun regions_flat :: "selector list \<Rightarrow> node \<Rightarrow> bool" where
  "regions_flat sels (TextNode t) = True"
| "regions_flat sels (Element tg cl at ch) =
     (if marked sels (Element tg cl at ch) then list_all (unmarked sels) ch
      else list_all (regions_flat sels) ch)"

definition plain_markup ::
  "selector list \<Rightarrow> html_parser \<Rightarrow> resource \<Rightarrow> (selector \<times> string \<times> update_type) list \<Rightarrow> bool" where
  "plain_markup sels parse t bs =
     list_all (\<lambda>(sel, key, ty).
        case t key of None \<Rightarrow> True
        | Some v \<Rightarrow> if ty = Html then list_all (unmarked sels) (parse v) else True) bs"

definition markup_plain_for :: "html_parser \<Rightarrow> state \<Rightarrow> bool" where
  "markup_plain_for parse s =
     (case translationsMap s (currentLang s) of
        None \<Rightarrow> True
      | Some t \<Rightarrow> plain_markup (map fst bindings) parse t bindings)"

text \<open>
  The bindings that write to the element at path \<open>p\<close>: those whose value in the
  resource is present and not empty and whose selector resolves to \<open>p\<close>.
\<close>

definition writers ::
  "resource \<Rightarrow> (selector \<times> string \<times> update_type) list \<Rightarrow> node \<Rightarrow> nat list \<Rightarrow>
   (selector \<times> string \<times> update_type) list" where
  "writers t bs doc p =
     filter (\<lambda>(sel, key, ty). if truthy (t key) then querySelector sel doc = Some p else False) bs"

fun names_attribute :: "string \<Rightarrow> simple_selector \<Rightarrow> bool" where
  "names_attribute a (Class c) = False"
| "names_attribute a (AttrEq b v) = (a = b)"
| "names_attribute a (NthChild k) = False"

fun reads_attribute :: "string \<Rightarrow> selector \<Rightarrow> bool" where
  "reads_attribute a (Sel tgt) = list_ex (names_attribute a) tgt"
| "reads_attribute a (Desc anc tgt) =
     (list_ex (names_attribute a) anc \<or> list_ex (names_attribute a) tgt)"

subsection \<open>Auxiliary notions\<close>

text \<open>Two paths diverge when neither leads through the node of the other.\<close>

fun diverge :: "nat list \<Rightarrow> nat list \<Rightarrow> bool" where
  "diverge (a # p) (b # q) = (a \<noteq> b \<or> diverge p q)"
| "diverge p q = False"

text \<open>
  \<open>agree sels e' e\<close>: no selector of \<open>sels\<close> tells \<open>e'\<close> from \<open>e\<close> by the node
  itself. A \<open>plain_write\<close> keeps a node in agreement with itself and keeps unmarked
  children unmarked. \<open>keeps_frame\<close>: a write that changes neither tag nor children.
\<close>

definition agree :: "selector list \<Rightarrow> node \<Rightarrow> node \<Rightarrow> bool" where
  "agree sels e' e =
     (is_element e' = is_element e \<and> classList e' = classList e \<and>
      (\<forall>a. list_ex (reads_attribute a) sels \<longrightarrow>
           map_of (attributes e') a = map_of (attributes e) a))"

definition plain_write :: "selector list \<Rightarrow> (node \<Rightarrow> node) \<Rightarrow> bool" where
  "plain_write sels w =
     (\<forall>e. agree sels (w e) e \<and>
          (list_all (unmarked sels) (childNodes e) \<longrightarrow>
           list_all (unmarked sels) (childNodes (w e))))"

definition keeps_frame :: "(node \<Rightarrow> node) \<Rightarrow> bool" where
  "keeps_frame f =
     (\<forall>n. is_element (f n) = is_element n \<and> tagName (f n) = tagName n \<and>
          childNodes (f n) = childNodes n)"

text \<open>
  \<open>resolved \<rho> parse t b\<close> is the update of the binding \<open>b\<close> with its selector
  resolved by \<open>\<rho>\<close> instead of a search; a document is \<open>settled\<close> for \<open>\<rho>\<close> when
  its regions are flat and every selector resolves as \<open>\<rho>\<close> says.
\<close>

definition resolved ::
  "(selector \<Rightarrow> nat list option) \<Rightarrow> html_parser \<Rightarrow> resource \<Rightarrow>
   selector \<times> string \<times> update_type \<Rightarrow> node \<Rightarrow> node" where
  "resolved \<rho> parse t b =
     (case b of (sel, key, ty) \<Rightarrow>
        (case \<rho> sel of None \<Rightarrow> id
         | Some p \<Rightarrow>
             (case t key of None \<Rightarrow> id
              | Some v \<Rightarrow> if v = [] then id else modify p (write_content parse ty v))))"

definition settled :: "selector list \<Rightarrow> (selector \<Rightarrow> nat list option) \<Rightarrow> node \<Rightarrow> bool" where
  "settled sels \<rho> d = (regions_flat sels d \<and> (\<forall>s \<in> set sels. querySelector s d = \<rho> s))"

text \<open>The slider after \<^verbatim>\<open>showSlide(i)\<close> has returned; a run in which no handler throws.\<close>

definition shown :: "int \<Rightarrow> slider \<Rightarrow> slider" where
  "shown i s =
     s\<lparr>slides := (map (remove_token ''active'') (slides s))[nat i :=
                    add_token ''active'' (remove_token ''active'' (slides s ! nat i))],
       currentSlide := i\<rparr>"

fun no_throw :: "slider_event list \<Rightarrow> slider \<Rightarrow> bool" where
  "no_throw [] s = True"
| "no_throw (e # es) s =
     (case slider_step e s of Returned s' \<Rightarrow> no_throw es s' | Threw err s' \<Rightarrow> False)"

subsection \<open>Example inputs\<close>

text \<open>
  A parser for markup without tags, resources, a small page, a page with a region
  inside another, a page whose one element two bindings select, the states after a
  successful and after a failed start-up, two networks, a slider and two ticks.
\<close>

definition example_parser :: html_parser where
  "example_parser v = [TextNode v]"

definition res_ar :: resource where
  "res_ar = map_of [(''home'', ''Home''), (''features'', ''Features''),
                    (''hero_title'', ''Welcome''), (''cta_placeholder'', ''Your email'')]"

definition res_fr :: resource where
  "res_fr = map_of [(''home'', ''Accueil''), (''features'', []),
                    (''hero_title'', ''Bienvenue'')]"

definition page :: node where
  "page = Element ''html'' [] []
     [Element ''head'' [] [] [],
      Element ''body'' [] [(''dir'', ''rtl'')]
        [Element ''a'' [''lang-option'', ''active''] [(''data-lang'', ''ar'')] [TextNode ''AR''],
         Element ''a'' [''lang-option''] [(''data-lang'', ''fr'')] [TextNode ''FR''],
         Element ''span'' [''current-lang''] [] [TextNode ''AR''],
         Element ''div'' [''lang-dropdown'', ''show''] [] [],
         Element ''a'' [] [(''data-key'', ''home'')] [TextNode ''x''],
         Element ''h1'' [] [(''data-key'', ''hero_title'')] [TextNode ''y''],
         Element ''p'' [] [(''data-key'', ''features'')] [TextNode ''z''],
         Element ''input'' [] [(''data-key'', ''cta_placeholder'')] []]]"

definition nested_page :: node where
  "nested_page = Element ''html'' [] []
     [Element ''body'' [] []
        [Element ''div'' [] [(''data-key'', ''features'')]
           [Element ''span'' [] [(''data-key'', ''home'')] [TextNode ''a'']],
         Element ''span'' [] [(''data-key'', ''home'')] [TextNode ''b'']]]"

definition started :: state where
  "started = \<lparr>currentLang = ''ar'', translationsMap = [''ar'' \<mapsto> res_ar], document = page,
               console = [], requests = [resource_url ''ar'']\<rparr>"

definition started_nested :: state where
  "started_nested = \<lparr>currentLang = ''ar'', translationsMap = [''ar'' \<mapsto> res_ar],
               document = nested_page, console = [], requests = [resource_url ''ar'']\<rparr>"

definition unloaded :: state where
  "unloaded = \<lparr>currentLang = ''ar'', translationsMap = Map.empty, document = page,
                console = [''Failed to load language file for ar:''],
                requests = [resource_url ''ar'']\<rparr>"

definition started_fr :: state where
  "started_fr = \<lparr>currentLang = ''fr'', translationsMap = [''ar'' \<mapsto> res_ar, ''fr'' \<mapsto> res_fr],
                  document = page, console = [],
                  requests = [resource_url ''ar'', resource_url ''fr'']\<rparr>"

definition res_features :: resource where
  "res_features = map_of [(''features'', ''Features'')]"

definition res_rating :: resource where
  "res_rating = map_of [(''customer_rating'', ''Rating''), (''cta_placeholder'', ''Your email'')]"

definition stat_page :: node where
  "stat_page = Element ''html'' [] []
     [Element ''body'' [] []
        [Element ''div'' [''stat-item''] []
           [Element ''span'' [''stat-label''] [(''data-key'', ''verified'')] [TextNode ''old'']],
         Element ''input'' [] [(''data-key'', ''cta_placeholder'')] []]]"

definition features_only_nested :: state where
  "features_only_nested = \<lparr>currentLang = ''ar'', translationsMap = [''ar'' \<mapsto> res_features],
     document = nested_page, console = [], requests = [resource_url ''ar'']\<rparr>"

definition rating_on_stat_page :: state where
  "rating_on_stat_page = \<lparr>currentLang = ''ar'', translationsMap = [''ar'' \<mapsto> res_rating],
     document = stat_page, console = [], requests = [resource_url ''ar'']\<rparr>"

definition offline :: network where
  "offline url = NetworkError"

definition online :: network where
  "online url = (if url = resource_url ''fr'' then Response True 200 (Some res_fr)
                 else Response False 404 None)"

definition three_slides :: slider where
  "three_slides = initTestimonialSlider
     [[''testimonial-slide'', ''active''], [''testimonial-slide''], [''testimonial-slide'']]"

definition prompt_tick :: tick where
  "prompt_tick = \<lparr>launch_read = 1700000000000, zone_shift = 0, now_read = 1700000000000\<rparr>"

definition late_tick :: tick where
  "late_tick = \<lparr>launch_read = 1700000000000, zone_shift = 0, now_read = 1700000000001\<rparr>"

section \<open>Lemmas\<close>

subsection \<open>The search and the writes on the tree\<close>

lemma simple_agree:
  assumes "classList e' = classList e"
    and "\<And>a. names_attribute a c \<Longrightarrow> map_of (attributes e') a = map_of (attributes e) a"
  shows "matches_simple i e' c = matches_simple i e c" "marks e' c = marks e c"
  using assms by (cases c; simp)+

lemma compound_agree:
  assumes "classList e' = classList e"
    and "\<And>a. list_ex (names_attribute a) cs \<Longrightarrow> map_of (attributes e') a = map_of (attributes e) a"
  shows "matches_compound i e' cs = matches_compound i e cs"
    and "list_all (marks e') cs = list_all (marks e) cs"
proof -
  have "\<And>c. c \<in> set cs \<Longrightarrow> matches_simple i e' c = matches_simple i e c \<and> marks e' c = marks e c"
    using assms simple_agree[of e' e] by (metis list_ex_iff)
  then show "matches_compound i e' cs = matches_compound i e cs"
    and "list_all (marks e') cs = list_all (marks e) cs"
    by (auto simp: matches_compound_def list_all_iff)
qed

lemma agree_matches:
  assumes "agree sels e' e" "s \<in> set sels"
  shows "matches s inside i e' = matches s inside i e"
    and "enters s inside i e' = enters s inside i e"
    and "list_all (marks e') (target s) = list_all (marks e) (target s)"
proof -
  have c: "classList e' = classList e" using assms(1) by (simp add: agree_def)
  have a: "\<And>a. reads_attribute a s \<Longrightarrow> map_of (attributes e') a = map_of (attributes e) a"
    using assms by (auto simp: agree_def list_ex_iff)
  show "matches s inside i e' = matches s inside i e"
    using compound_agree(1)[OF c, of _ i] a by (cases s) auto
  show "enters s inside i e' = enters s inside i e"
    using compound_agree(1)[OF c, of _ i] a by (cases s) auto
  show "list_all (marks e') (target s) = list_all (marks e) (target s)"
    using compound_agree(2)[OF c] a by (cases s) auto
qed

lemma agree_marked:
  assumes "agree sels e' e"
  shows "marked sels e' = marked sels e"
proof -
  have "is_element e' = is_element e" using assms by (simp add: agree_def)
  moreover have "\<And>s. s \<in> set sels \<Longrightarrow>
      list_all (marks e') (target s) = list_all (marks e) (target s)"
    using agree_matches(3)[OF assms] by simp
  ultimately show ?thesis by (auto simp: marked_def list_ex_iff)
qed

lemma matches_marks: "matches_simple i e c \<Longrightarrow> marks e c"
  by (cases c) simp_all

lemma matches_marked:
  assumes "matches s inside i e" "s \<in> set sels" "is_element e"
  shows "marked sels e"
proof -
  have "matches_compound i e (target s)" using assms(1) by (cases s) simp_all
  then have "list_all (marks e) (target s)"
    by (auto simp: matches_compound_def list_all_iff intro: matches_marks)
  with assms(2,3) show ?thesis by (auto simp: marked_def list_ex_iff)
qed

lemma find_unmarked:
  "s \<in> set sels \<Longrightarrow> unmarked sels n \<Longrightarrow> find_node s inside i n = None"
  "s \<in> set sels \<Longrightarrow> list_all (unmarked sels) ns \<Longrightarrow> find_nodes s inside i k ns = None"
proof (induction s inside i n and s inside i k ns rule: find_node_find_nodes.induct)
  case (1 s inside i t)
  then show ?case by simp
next
  case (2 s inside i tg cl at ch)
  then show ?case using matches_marked[of s inside i "Element tg cl at ch" sels] by auto
next
  case (3 s inside i k)
  then show ?case by simp
next
  case (4 s inside i k n ns)
  then show ?case by simp
qed

lemma find_node_unfold:
  "find_node s inside i n =
     (if \<not> is_element n then None
      else if matches s inside i n then Some []
      else find_nodes s (enters s inside i n) 1 0 (childNodes n))"
  by (cases n) simp_all

lemma regions_flat_unfold:
  "regions_flat sels n =
     (\<not> is_element n \<or>
      (if marked sels n then list_all (unmarked sels) (childNodes n)
       else list_all (regions_flat sels) (childNodes n)))"
  by (cases n) simp_all

lemma unmarked_unfold:
  "unmarked sels n = (\<not> marked sels n \<and> list_all (unmarked sels) (childNodes n))"
  by (cases n) (simp_all add: marked_def)

lemma find_nodes_update:
  "(\<forall>inside i. find_node s inside i n' = find_node s inside i (ch ! k)) \<Longrightarrow>
   is_element n' = is_element (ch ! k) \<Longrightarrow>
   find_nodes s inside i j (ch[k := n']) = find_nodes s inside i j ch"
proof (induction ch arbitrary: k i j)
  case Nil
  then show ?case by simp
next
  case (Cons a ch)
  show ?case
  proof (cases k)
    case 0
    then show ?thesis using Cons.prems by simp
  next
    case (Suc m)
    from Cons.prems Suc
    have 1: "\<forall>inside i. find_node s inside i n' = find_node s inside i (ch ! m)"
      and 2: "is_element n' = is_element (ch ! m)" by simp_all
    have "\<And>i j. find_nodes s inside i j (ch[m := n']) = find_nodes s inside i j ch"
      using Cons.IH[OF 1 2] by simp
    then show ?thesis using Suc by (simp split: option.splits)
  qed
qed

lemma matches_simple_children:
  "matches_simple i (Element tg cl at ch') = matches_simple i (Element tg cl at ch)"
  "marks (Element tg cl at ch') = marks (Element tg cl at ch)"
proof -
  have "matches_simple i (Element tg cl at ch') c = matches_simple i (Element tg cl at ch) c" for c
    by (cases c) simp_all
  then show "matches_simple i (Element tg cl at ch') = matches_simple i (Element tg cl at ch)"
    by (intro ext)
  have "marks (Element tg cl at ch') c = marks (Element tg cl at ch) c" for c
    by (cases c) simp_all
  then show "marks (Element tg cl at ch') = marks (Element tg cl at ch)"
    by (intro ext)
qed

lemma matches_children:
  "matches s inside i (Element tg cl at ch') = matches s inside i (Element tg cl at ch)"
  "enters s inside i (Element tg cl at ch') = enters s inside i (Element tg cl at ch)"
  using matches_simple_children(1)[of _ tg cl at ch' ch]
  by (cases s; simp add: matches_compound_def)+

lemma marked_children:
  "marked sels (Element tg cl at ch') = marked sels (Element tg cl at ch)"
  using matches_simple_children(2)[of tg cl at ch' ch] by (simp add: marked_def)

lemma plain_write_element:
  "plain_write sels w \<Longrightarrow> is_element (w e) = is_element e"
  by (simp add: plain_write_def agree_def)

lemma modify_is_element:
  assumes "plain_write sels w"
  shows "is_element (modify p w n) = is_element n"
  using plain_write_element[OF assms] by (cases p; cases n) auto

lemma find_node_modify:
  assumes "s \<in> set sels" "plain_write sels w"
  shows "node_at p n = Some e \<Longrightarrow> list_all (unmarked sels) (childNodes e) \<Longrightarrow>
         find_node s inside i (modify p w n) = find_node s inside i n"
proof (induction p arbitrary: n inside i)
  case Nil
  then have n: "n = e" by simp
  have ag: "agree sels (w e) e" using assms(2) by (simp add: plain_write_def)
  have "list_all (unmarked sels) (childNodes (w e))"
    using assms(2) Nil.prems(2) by (simp add: plain_write_def)
  then have "\<And>ins. find_nodes s ins 1 0 (childNodes (w e)) = None"
    using find_unmarked(2)[OF assms(1)] by simp
  moreover have "\<And>ins. find_nodes s ins 1 0 (childNodes e) = None"
    using find_unmarked(2)[OF assms(1)] Nil.prems(2) by simp
  moreover have "is_element (w e) = is_element e" using ag by (simp add: agree_def)
  ultimately show ?case
    unfolding n modify.simps find_node_unfold[of s inside i "w e"] find_node_unfold[of s inside i e]
    using agree_matches(1,2)[OF ag assms(1)] by simp
next
  case (Cons k q)
  then obtain tg cl at ch where n: "n = Element tg cl at ch" "k < length ch"
      "node_at q (ch ! k) = Some e"
    by (cases n) (auto split: if_splits)
  have ih: "\<And>inside i. find_node s inside i (modify q w (ch ! k)) = find_node s inside i (ch ! k)"
    using Cons.IH[OF n(3) Cons.prems(2)] by simp
  have "\<And>ins. find_nodes s ins 1 0 (ch[k := modify q w (ch ! k)]) = find_nodes s ins 1 0 ch"
    by (rule find_nodes_update) (simp_all add: ih modify_is_element[OF assms(2)])
  then show ?case using n matches_children[of s inside i tg cl at "ch[k := modify q w (ch ! k)]" ch]
    by simp
qed

lemma unmarked_node_at:
  "unmarked sels n \<Longrightarrow> node_at p n = Some e \<Longrightarrow> \<not> marked sels e"
proof (induction p arbitrary: n)
  case Nil
  then show ?case by (simp add: unmarked_unfold)
next
  case (Cons k q)
  then obtain tg cl at ch where n: "n = Element tg cl at ch" "k < length ch"
      "node_at q (ch ! k) = Some e"
    by (cases n) (auto split: if_splits)
  have "unmarked sels (ch ! k)" using Cons.prems(1) n by (simp add: list_all_length)
  from Cons.IH[OF this n(3)] show ?case .
qed

lemma list_all_update: "list_all P xs \<Longrightarrow> P x \<Longrightarrow> list_all P (xs[k := x])"
proof (induction xs arbitrary: k)
  case Nil
  then show ?case by simp
next
  case (Cons a xs)
  then show ?case by (cases k) simp_all
qed

lemma regions_flat_modify:
  assumes "plain_write sels w"
  shows "regions_flat sels n \<Longrightarrow> node_at p n = Some e \<Longrightarrow> marked sels e \<Longrightarrow>
         regions_flat sels (modify p w n)"
proof (induction p arbitrary: n)
  case Nil
  then have n: "n = e" by simp
  have ag: "agree sels (w e) e" using assms by (simp add: plain_write_def)
  have "list_all (unmarked sels) (childNodes e)"
    using Nil.prems n by (simp add: regions_flat_unfold[of sels e] marked_def)
  then have "list_all (unmarked sels) (childNodes (w e))" using assms by (simp add: plain_write_def)
  then show ?case using agree_marked[OF ag] Nil.prems(3) n
    by (simp add: regions_flat_unfold[of sels "w e"])
next
  case (Cons k q)
  then obtain tg cl at ch where n: "n = Element tg cl at ch" "k < length ch"
      "node_at q (ch ! k) = Some e"
    by (cases n) (auto split: if_splits)
  show ?case
  proof (cases "marked sels n")
    case True
    then have "unmarked sels (ch ! k)" using Cons.prems(1) n by (simp add: list_all_length)
    from unmarked_node_at[OF this n(3)] Cons.prems(3) show ?thesis by simp
  next
    case False
    then have f: "list_all (regions_flat sels) ch" using Cons.prems(1) n by simp
    then have "regions_flat sels (ch ! k)" using n(2) by (simp add: list_all_length)
    from Cons.IH[OF this n(3) Cons.prems(3)]
    have "list_all (regions_flat sels) (ch[k := modify q w (ch ! k)])"
      using f by (intro list_all_update)
    moreover have "marked sels (Element tg cl at (ch[k := modify q w (ch ! k)])) = marked sels n"
      using n marked_children by simp
    ultimately show ?thesis using False n by simp
  qed
qed

lemma find_node_Some:
  "s \<in> set sels \<Longrightarrow> find_node s inside i n = Some p \<Longrightarrow>
     \<exists>e. node_at p n = Some e \<and> marked sels e"
  "s \<in> set sels \<Longrightarrow> find_nodes s inside i k ns = Some p \<Longrightarrow>
     \<exists>m q e. p = (k + m) # q \<and> m < length ns \<and> node_at q (ns ! m) = Some e \<and> marked sels e"
proof (induction s inside i n and s inside i k ns arbitrary: p and p rule: find_node_find_nodes.induct)
  case (1 s inside i t)
  then show ?case by simp
next
  case (2 s inside i tg cl at ch)
  show ?case
  proof (cases "matches s inside i (Element tg cl at ch)")
    case True
    then show ?thesis using "2.prems" matches_marked[OF True] by auto
  next
    case False
    then have "find_nodes s (enters s inside i (Element tg cl at ch)) 1 0 ch = Some p"
      using "2.prems" by simp
    from "2.IH"[OF False "2.prems"(1) this] show ?thesis by auto
  qed
next
  case (3 s inside i k)
  then show ?case by simp
next
  case (4 s inside i k n ns)
  show ?case
  proof (cases "find_node s inside i n")
    case None
    then have "find_nodes s inside (if is_element n then Suc i else i) (Suc k) ns = Some p"
      using "4.prems" by simp
    from "4.IH"(2)[OF None "4.prems"(1) this] obtain m q e where
      "p = (Suc k + m) # q" "m < length ns" "node_at q (ns ! m) = Some e" "marked sels e" by blast
    then have "p = (k + Suc m) # q \<and> Suc m < length (n # ns) \<and>
        node_at q ((n # ns) ! Suc m) = Some e \<and> marked sels e" by simp
    then show ?thesis by blast
  next
    case (Some q)
    from "4.IH"(1)[OF "4.prems"(1) Some] obtain e where "node_at q n = Some e" "marked sels e" by blast
    moreover have "p = k # q" using Some "4.prems" by simp
    ultimately have "p = (k + 0) # q \<and> 0 < length (n # ns) \<and>
        node_at q ((n # ns) ! 0) = Some e \<and> marked sels e" by simp
    then show ?thesis by blast
  qed
qed

lemma flat_paths:
  "regions_flat sels n \<Longrightarrow> node_at p n = Some e \<Longrightarrow> marked sels e \<Longrightarrow>
   node_at q n = Some e' \<Longrightarrow> marked sels e' \<Longrightarrow> p = q \<or> diverge p q"
proof (induction p arbitrary: q n)
  case Nil
  then have n: "n = e" by simp
  show ?case
  proof (cases q)
    case Nil
    then show ?thesis by simp
  next
    case (Cons k q')
    then obtain tg cl at ch where c: "n = Element tg cl at ch" "k < length ch"
        "node_at q' (ch ! k) = Some e'"
      using Nil.prems(4) by (cases n) (auto split: if_splits)
    have "regions_flat sels (Element tg cl at ch)" "marked sels (Element tg cl at ch)"
      using Nil.prems(1,3) n c by auto
    then have "unmarked sels (ch ! k)" using c(2) by (simp add: list_all_length)
    from unmarked_node_at[OF this c(3)] Nil.prems(5) show ?thesis by simp
  qed
next
  case (Cons k p')
  then obtain tg cl at ch where c: "n = Element tg cl at ch" "k < length ch"
      "node_at p' (ch ! k) = Some e"
    by (cases n) (auto split: if_splits)
  show ?case
  proof (cases q)
    case Nil
    then have "marked sels n" using Cons.prems(4,5) by simp
    then have "unmarked sels (ch ! k)" using Cons.prems(1) c by (simp add: list_all_length)
    from unmarked_node_at[OF this c(3)] Cons.prems(3) show ?thesis by simp
  next
    case (Cons k' q')
    show ?thesis
    proof (cases "k' = k")
      case False
      then show ?thesis using Cons by auto
    next
      case True
      then have q: "node_at q' (ch ! k) = Some e'"
        using Cons.prems(4) c Cons by simp
      have "\<not> marked sels n"
      proof
        assume "marked sels n"
        then have "unmarked sels (ch ! k)" using Cons.prems(1) c by (simp add: list_all_length)
        from unmarked_node_at[OF this c(3)] Cons.prems(3) show False by simp
      qed
      then have "regions_flat sels (ch ! k)" using Cons.prems(1) c by (simp add: list_all_length)
      from Cons.IH[OF this c(3) Cons.prems(3) q Cons.prems(5)] show ?thesis
        using True Cons by auto
    qed
  qed
qed

lemma modify_commute:
  "diverge p q \<Longrightarrow> modify p f (modify q g n) = modify q g (modify p f n)"
proof (induction p q arbitrary: n rule: diverge.induct)
  case (1 a p b q)
  show ?case
  proof (cases n)
    case (TextNode t)
    then show ?thesis by simp
  next
    case (Element tg cl at ch)
    show ?thesis
    proof (cases "a = b")
      case True
      then have "diverge p q" using 1 by simp
      then have "modify p f (modify q g (ch ! b)) = modify q g (modify p f (ch ! b))"
        using "1.IH" True by simp
      then show ?thesis using Element True by simp
    next
      case False
      then show ?thesis using Element by (simp add: list_update_swap)
    qed
  qed
qed simp_all

lemma modify_compose: "modify p f (modify p g n) = modify p (\<lambda>x. f (g x)) n"
proof (induction p arbitrary: n)
  case Nil
  then show ?case by simp
next
  case (Cons k p)
  then show ?case by (cases n) simp_all
qed

lemma fold_band:
  assumes "\<And>x g. x \<in> set fs \<Longrightarrow> g \<in> set fs \<Longrightarrow>
             (\<forall>d. x (g d) = g (x d)) \<or> (\<forall>d. x (g d) = x d)"
    and "\<And>g d. g \<in> set fs \<Longrightarrow> g (g d) = g d"
  shows "fold (\<lambda>f. f) fs (fold (\<lambda>f. f) fs d) = fold (\<lambda>f. f) fs d"
  using assms
proof (induction fs arbitrary: d rule: rev_induct)
  case Nil
  then show ?case by simp
next
  case (snoc g fs)
  have absorb: "g (fold (\<lambda>f. f) xs (g d)) = g (fold (\<lambda>f. f) xs d)" if "set xs \<subseteq> set fs" for xs d
    using that
  proof (induction xs arbitrary: d)
    case Nil
    from snoc.prems(2)[of g] show ?case by simp
  next
    case (Cons x xs)
    from snoc.prems(1)[of x g] Cons.prems
    consider "\<forall>d. x (g d) = g (x d)" | "\<forall>d. x (g d) = x d" by auto
    then show ?case
    proof cases
      case 1
      then show ?thesis using Cons.IH[of "x d"] Cons.prems by simp
    next
      case 2
      then show ?thesis by simp
    qed
  qed
  have ih: "fold (\<lambda>f. f) fs (fold (\<lambda>f. f) fs d) = fold (\<lambda>f. f) fs d" for d
    using snoc.IH snoc.prems by simp
  have "fold (\<lambda>f. f) (fs @ [g]) (fold (\<lambda>f. f) (fs @ [g]) d)
        = g (fold (\<lambda>f. f) fs (g (fold (\<lambda>f. f) fs d)))" by simp
  also have "\<dots> = g (fold (\<lambda>f. f) fs (fold (\<lambda>f. f) fs d))"
    using absorb[of fs] by simp
  also have "\<dots> = fold (\<lambda>f. f) (fs @ [g]) d" using ih by simp
  finally show ?case .
qed

lemma set_children_simps [simp]:
  "is_element (set_children c n) = is_element n"
  "tagName (set_children c n) = tagName n"
  "classList (set_children c n) = classList n"
  "attributes (set_children c n) = attributes n"
  "childNodes (set_children c n) = (if is_element n then c else [])"
  "set_children c (set_children c' n) = set_children c n"
  by (cases n; simp)+

lemma setAttribute_more [simp]:
  "is_element (setAttribute a v n) = is_element n"
  "classList (setAttribute a v n) = classList n"
  "childNodes (setAttribute a v n) = childNodes n"
  "map_of (attributes (setAttribute a v n)) b = (if is_element n \<and> b = a then Some v else map_of (attributes n) b)"
  "setAttribute a v (setAttribute a v' n) = setAttribute a v n"
  "setAttribute a v (set_children c n) = set_children c (setAttribute a v n)"
  "tagName (setAttribute a v n) = tagName n"
  by (cases n; simp add: update_conv')+

lemma write_content_laws:
  "(\<forall>e. write_content parse ty v (write_content parse ty' v' e) =
        write_content parse ty' v' (write_content parse ty v e)) \<or>
   (\<forall>e. write_content parse ty v (write_content parse ty' v' e) = write_content parse ty v e)"
  "write_content parse ty v (write_content parse ty v e) = write_content parse ty v e"
  by (cases ty; cases ty'; simp add: set_innerHTML_def set_textContent_def set_placeholder_def)+

lemma plain_write_content:
  assumes "\<not> list_ex (reads_attribute ''placeholder'') sels"
    and "ty = Html \<longrightarrow> list_all (unmarked sels) (parse v)"
  shows "plain_write sels (write_content parse ty v)"
proof (cases ty)
  case Text
  then show ?thesis
    by (simp add: plain_write_def agree_def set_textContent_def)
next
  case Html
  then show ?thesis using assms(2)
    by (simp add: plain_write_def agree_def set_innerHTML_def)
next
  case Placeholder
  then show ?thesis using assms(1)
    by (auto simp: plain_write_def agree_def set_placeholder_def)
qed

lemma flat_marked_children:
  "regions_flat sels n \<Longrightarrow> node_at p n = Some e \<Longrightarrow> marked sels e \<Longrightarrow>
   list_all (unmarked sels) (childNodes e)"
proof (induction p arbitrary: n)
  case Nil
  then show ?case by (simp add: regions_flat_unfold[of sels e] marked_def)
next
  case (Cons k q)
  then obtain tg cl at ch where c: "n = Element tg cl at ch" "k < length ch"
      "node_at q (ch ! k) = Some e"
    by (cases n) (auto split: if_splits)
  have "\<not> marked sels n"
  proof
    assume "marked sels n"
    then have "unmarked sels (ch ! k)" using Cons.prems(1) c by (simp add: list_all_length)
    from unmarked_node_at[OF this c(3)] Cons.prems(3) show False by simp
  qed
  then have "regions_flat sels (ch ! k)" using Cons.prems(1) c by (simp add: list_all_length)
  from Cons.IH[OF this c(3) Cons.prems(3)] show ?case .
qed

lemma settledD:
  "settled sels \<rho> d \<Longrightarrow> regions_flat sels d"
  "settled sels \<rho> d \<Longrightarrow> s \<in> set sels \<Longrightarrow> querySelector s d = \<rho> s"
  by (simp_all add: settled_def)

lemma settledI:
  "regions_flat sels d \<Longrightarrow> (\<And>s. s \<in> set sels \<Longrightarrow> querySelector s d = \<rho> s) \<Longrightarrow>
   settled sels \<rho> d"
  by (simp add: settled_def)

lemma plain_markupD:
  assumes "plain_markup sels parse t bs" "(sel, key, ty) \<in> set bs" "t key = Some v"
  shows "ty = Html \<longrightarrow> list_all (unmarked sels) (parse v)"
  using assms by (auto simp: plain_markup_def list_all_iff)

lemma apply_binding_resolved:
  assumes "settled (map fst bs) \<rho> d" "b \<in> set bs"
    and "\<not> list_ex (reads_attribute ''placeholder'') (map fst bs)"
    and "plain_markup (map fst bs) parse t bs"
  shows "apply_binding parse t b d = resolved \<rho> parse t b d"
    and "settled (map fst bs) \<rho> (resolved \<rho> parse t b d)"
proof -
  let ?sels = "map fst bs"
  obtain sel key ty where b: "b = (sel, key, ty)" by (cases b)
  have sel: "sel \<in> set ?sels" using assms(2) b by force
  have q: "querySelector sel d = \<rho> sel" by (rule settledD(2)[OF assms(1) sel])
  show "apply_binding parse t b d = resolved \<rho> parse t b d"
    by (simp add: apply_binding_def resolved_def b updateElement_def q split: option.splits)
  show "settled ?sels \<rho> (resolved \<rho> parse t b d)"
  proof (cases "\<exists>p v. \<rho> sel = Some p \<and> t key = Some v \<and> v \<noteq> []")
    case False
    then have "resolved \<rho> parse t b d = d"
      by (auto simp: resolved_def b split: option.splits)
    then show ?thesis using assms(1) by simp
  next
    case True
    then obtain p v where pv: "\<rho> sel = Some p" "t key = Some v" "v \<noteq> []" by blast
    let ?w = "write_content parse ty v"
    have r: "resolved \<rho> parse t b d = modify p ?w d" using pv by (simp add: resolved_def b)
    have pw: "plain_write ?sels ?w"
      using plain_markupD[OF assms(4) _ pv(2)] assms(2,3) b by (intro plain_write_content) auto
    have flat: "regions_flat ?sels d" by (rule settledD(1)[OF assms(1)])
    from find_node_Some(1)[OF sel, of False 1 d p] q pv(1)
    obtain e where e: "node_at p d = Some e" "marked ?sels e" by (auto simp: querySelector_def)
    have ch: "list_all (unmarked ?sels) (childNodes e)" by (rule flat_marked_children[OF flat e])
    have "regions_flat ?sels (modify p ?w d)" by (rule regions_flat_modify[OF pw flat e])
    moreover have "querySelector s (modify p ?w d) = \<rho> s" if "s \<in> set ?sels" for s
      using find_node_modify[OF that pw e(1) ch, of False 1] settledD(2)[OF assms(1) that]
      by (simp add: querySelector_def)
    ultimately show ?thesis unfolding r by (intro settledI)
  qed
qed

lemma fold_resolved:
  assumes "\<not> list_ex (reads_attribute ''placeholder'') (map fst bs)"
    and "plain_markup (map fst bs) parse t bs"
  shows "settled (map fst bs) \<rho> d \<Longrightarrow> set xs \<subseteq> set bs \<Longrightarrow>
     fold (apply_binding parse t) xs d = fold (resolved \<rho> parse t) xs d \<and>
     settled (map fst bs) \<rho> (fold (resolved \<rho> parse t) xs d)"
proof (induction xs arbitrary: d)
  case Nil
  then show ?case by simp
next
  case (Cons x xs)
  have x: "x \<in> set bs" using Cons.prems(2) by simp
  from apply_binding_resolved[OF Cons.prems(1) x assms]
  have 1: "apply_binding parse t x d = resolved \<rho> parse t x d"
    and 2: "settled (map fst bs) \<rho> (resolved \<rho> parse t x d)" by simp_all
  from Cons.IH[OF 2] Cons.prems(2) show ?case using 1 by simp
qed

lemma resolved_pair:
  assumes "settled (map fst bs) \<rho> d0" "x \<in> set bs" "y \<in> set bs"
  shows "(\<forall>d. resolved \<rho> parse t x (resolved \<rho> parse t y d) =
              resolved \<rho> parse t y (resolved \<rho> parse t x d)) \<or>
         (\<forall>d. resolved \<rho> parse t x (resolved \<rho> parse t y d) = resolved \<rho> parse t x d)"
    and "resolved \<rho> parse t x (resolved \<rho> parse t x d) = resolved \<rho> parse t x d"
proof -
  let ?sels = "map fst bs"
  obtain sx kx tx where x: "x = (sx, kx, tx)" by (cases x)
  obtain sy ky ty where y: "y = (sy, ky, ty)" by (cases y)
  have flat: "regions_flat ?sels d0" by (rule settledD(1)[OF assms(1)])
  have path: "\<exists>e. node_at p d0 = Some e \<and> marked ?sels e" if "\<rho> s = Some p" "s \<in> set ?sels" for s p
    using find_node_Some(1)[OF that(2), of False 1 d0 p] settledD(2)[OF assms(1) that(2)] that(1)
    by (simp add: querySelector_def)
  show "resolved \<rho> parse t x (resolved \<rho> parse t x d) = resolved \<rho> parse t x d"
    using write_content_laws(2)[of parse tx]
    by (simp add: resolved_def x modify_compose split: option.splits)
  show "(\<forall>d. resolved \<rho> parse t x (resolved \<rho> parse t y d) =
              resolved \<rho> parse t y (resolved \<rho> parse t x d)) \<or>
         (\<forall>d. resolved \<rho> parse t x (resolved \<rho> parse t y d) = resolved \<rho> parse t x d)"
  proof (cases "\<exists>p v. \<rho> sx = Some p \<and> t kx = Some v \<and> v \<noteq> []")
    case False
    then have "resolved \<rho> parse t x = id"
      by (auto simp: resolved_def x split: option.splits)
    then show ?thesis by simp
  next
    case True
    then obtain p v where pv: "\<rho> sx = Some p" "t kx = Some v" "v \<noteq> []" by blast
    have rx: "resolved \<rho> parse t x = modify p (write_content parse tx v)"
      using pv by (simp add: resolved_def x)
    show ?thesis
    proof (cases "\<exists>q u. \<rho> sy = Some q \<and> t ky = Some u \<and> u \<noteq> []")
      case False
      then have "resolved \<rho> parse t y = id"
        by (auto simp: resolved_def y split: option.splits)
      then show ?thesis by simp
    next
      case True
      then obtain q u where qu: "\<rho> sy = Some q" "t ky = Some u" "u \<noteq> []" by blast
      have ry: "resolved \<rho> parse t y = modify q (write_content parse ty u)"
        using qu by (simp add: resolved_def y)
      have "sx \<in> set ?sels" "sy \<in> set ?sels" using assms(2,3) x y by force+
      from path[OF pv(1) this(1)] path[OF qu(1) this(2)] flat
      have "p = q \<or> diverge p q" using flat_paths by blast
      then show ?thesis
      proof
        assume pq: "p = q"
        from write_content_laws(1)[of parse tx v ty u] show ?thesis
        proof
          assume c: "\<forall>e. write_content parse tx v (write_content parse ty u e) =
                        write_content parse ty u (write_content parse tx v e)"
          have "modify q (write_content parse tx v) (modify q (write_content parse ty u) d) =
                modify q (write_content parse ty u) (modify q (write_content parse tx v) d)" for d
            by (simp add: modify_compose c)
          then show ?thesis unfolding rx ry pq by simp
        next
          assume o: "\<forall>e. write_content parse tx v (write_content parse ty u e) =
                        write_content parse tx v e"
          have "modify q (write_content parse tx v) (modify q (write_content parse ty u) d) =
                modify q (write_content parse tx v) d" for d
            by (simp add: modify_compose o)
          then show ?thesis unfolding rx ry pq by simp
        qed
      next
        assume "diverge p q"
        then show ?thesis unfolding rx ry using modify_commute by blast
      qed
    qed
  qed
qed

lemma sync_regions_idem:
  assumes "regions_flat (map fst bs) d"
    and "\<not> list_ex (reads_attribute ''placeholder'') (map fst bs)"
    and "plain_markup (map fst bs) parse t bs"
  shows "sync_regions parse t bs (sync_regions parse t bs d) = sync_regions parse t bs d"
proof -
  let ?sels = "map fst bs"
  define \<rho> where "\<rho> = (\<lambda>s. querySelector s d)"
  let ?g = "resolved \<rho> parse t"
  have st: "settled ?sels \<rho> d" using assms(1) by (intro settledI) (simp_all add: \<rho>_def)
  from fold_resolved[OF assms(2,3) st, of bs]
  have 1: "sync_regions parse t bs d = fold ?g bs d" and 2: "settled ?sels \<rho> (fold ?g bs d)"
    by (simp_all add: sync_regions_def)
  from fold_resolved[OF assms(2,3) 2, of bs]
  have 3: "sync_regions parse t bs (fold ?g bs d) = fold ?g bs (fold ?g bs d)"
    by (simp add: sync_regions_def)
  have "fold (\<lambda>f. f) (map ?g bs) (fold (\<lambda>f. f) (map ?g bs) d) = fold (\<lambda>f. f) (map ?g bs) d"
  proof (rule fold_band)
    fix x g assume "x \<in> set (map ?g bs)" "g \<in> set (map ?g bs)"
    then obtain bx bg where "bx \<in> set bs" "bg \<in> set bs" "x = ?g bx" "g = ?g bg" by auto
    then show "(\<forall>d. x (g d) = g (x d)) \<or> (\<forall>d. x (g d) = x d)"
      using resolved_pair(1)[OF st, of bx bg parse t] by simp
  next
    fix g d' assume "g \<in> set (map ?g bs)"
    then obtain bg where "bg \<in> set bs" "g = ?g bg" by auto
    then show "g (g d') = g d'" using resolved_pair(2)[OF st, of bg bg] by simp
  qed
  then have "fold ?g bs (fold ?g bs d) = fold ?g bs d"
    by (simp add: fold_map comp_def)
  with 1 3 show ?thesis by simp
qed

lemma node_at_modify_diverge:
  "diverge p q \<Longrightarrow> node_at p (modify q f n) = node_at p n"
proof (induction p q arbitrary: n rule: diverge.induct)
  case (1 a p b q)
  show ?case
  proof (cases n)
    case (TextNode t)
    then show ?thesis by simp
  next
    case (Element tg cl at ch)
    show ?thesis
    proof (cases "a = b")
      case True
      then have "diverge p q" using 1 by simp
      then have "node_at p (modify q f (ch ! b)) = node_at p (ch ! b)"
        using "1.IH" True by simp
      then show ?thesis using Element True by simp
    next
      case False
      then show ?thesis using Element by simp
    qed
  qed
qed simp_all

lemma resolved_keeps_region:
  assumes "settled (map fst bs) \<rho> d0" "x \<in> set bs"
    and "node_at p d0 = Some e" "marked (map fst bs) e"
    and "x \<notin> set (filter (\<lambda>(sel, key, ty). if truthy (t key) then \<rho> sel = Some p else False) bs)"
  shows "node_at p (resolved \<rho> parse t x d) = node_at p d"
proof -
  let ?sels = "map fst bs"
  obtain sx kx tx where x: "x = (sx, kx, tx)" by (cases x)
  show ?thesis
  proof (cases "\<exists>q v. \<rho> sx = Some q \<and> t kx = Some v \<and> v \<noteq> []")
    case False
    then have "resolved \<rho> parse t x = id"
      by (auto simp: resolved_def x split: option.splits)
    then show ?thesis by simp
  next
    case True
    then obtain q v where qv: "\<rho> sx = Some q" "t kx = Some v" "v \<noteq> []" by blast
    have rx: "resolved \<rho> parse t x = modify q (write_content parse tx v)"
      using qv by (simp add: resolved_def x)
    have sx: "sx \<in> set ?sels" using assms(2) x by force
    have "q \<noteq> p" using assms(2,5) qv x by (auto simp: truthy_def)
    moreover obtain e' where "node_at q d0 = Some e'" "marked ?sels e'"
      using find_node_Some(1)[OF sx, of False 1 d0 q] settledD(2)[OF assms(1) sx] qv(1)
      by (auto simp: querySelector_def)
    ultimately have "diverge p q"
      using flat_paths[OF settledD(1)[OF assms(1)] assms(3,4)] by blast
    then show ?thesis unfolding rx by (rule node_at_modify_diverge)
  qed
qed

lemma sync_regions_keeps_region:
  assumes "regions_flat (map fst bs) d"
    and "\<not> list_ex (reads_attribute ''placeholder'') (map fst bs)"
    and "plain_markup (map fst bs) parse t bs"
    and "(sel, key, ty) \<in> set bs" "querySelector sel d = Some p"
    and "writers t bs d p = []"
  shows "node_at p (sync_regions parse t bs d) = node_at p d"
proof -
  let ?sels = "map fst bs"
  define \<rho> where "\<rho> = (\<lambda>s. querySelector s d)"
  let ?g = "resolved \<rho> parse t"
  have st: "settled ?sels \<rho> d" using assms(1) by (intro settledI) (simp_all add: \<rho>_def)
  have sel: "sel \<in> set ?sels" using assms(4) by force
  obtain e where e: "node_at p d = Some e" "marked ?sels e"
    using find_node_Some(1)[OF sel, of False 1 d p] assms(5) by (auto simp: querySelector_def)
  have none: "x \<notin> set (filter (\<lambda>(sel, key, ty). if truthy (t key) then \<rho> sel = Some p else False) bs)" for x
    using assms(6) unfolding writers_def \<rho>_def by simp
  have keep: "set xs \<subseteq> set bs \<Longrightarrow> node_at p (fold ?g xs d') = node_at p d'" for xs d'
  proof (induction xs arbitrary: d')
    case Nil
    then show ?case by simp
  next
    case (Cons x xs)
    have "x \<in> set bs" using Cons.prems by simp
    from resolved_keeps_region[OF st this e none]
    have "node_at p (?g x d') = node_at p d'" .
    then show ?case using Cons by simp
  qed
  from fold_resolved[OF assms(2,3) st, of bs]
  have "sync_regions parse t bs d = fold ?g bs d" by (simp add: sync_regions_def)
  then show ?thesis using keep[of bs d] by simp
qed

lemma node_at_modify_same:
  "node_at p d = Some e \<Longrightarrow> node_at p (modify p f d) = Some (f e)"
proof (induction p arbitrary: d)
  case Nil
  then show ?case by simp
next
  case (Cons k q)
  then show ?case by (cases d) (auto split: if_splits)
qed

lemma updateElement_writes:
  assumes "v \<noteq> []" "querySelector selector doc = Some p"
  shows "updateElement parse selector (Some v) type doc = modify p (write_content parse type v) doc"
  using assms by (simp add: updateElement_def)

lemma sync_regions_single_writer:
  assumes "regions_flat (map fst bs) d"
    and "\<not> list_ex (reads_attribute ''placeholder'') (map fst bs)"
    and "plain_markup (map fst bs) parse t bs"
    and "writers t bs d p = [(sel, key, ty)]" "t key = Some v" "node_at p d = Some e"
  shows "node_at p (sync_regions parse t bs d) = Some (write_content parse ty v e)"
proof -
  let ?sels = "map fst bs"
  define \<rho> where "\<rho> = (\<lambda>s. querySelector s d)"
  define P :: "selector \<times> string \<times> update_type \<Rightarrow> bool"
    where "P = (\<lambda>(sel, key, ty). if truthy (t key) then \<rho> sel = Some p else False)"
  let ?g = "resolved \<rho> parse t"
  have st: "settled ?sels \<rho> d" using assms(1) by (intro settledI) (simp_all add: \<rho>_def)
  have f: "filter P bs = [(sel, key, ty)]" using assms(4) unfolding writers_def \<rho>_def P_def .
  from filter_eq_ConsD[OF f] obtain us vs where bs: "bs = us @ (sel, key, ty) # vs"
    and us: "\<forall>u \<in> set us. \<not> P u" and b: "P (sel, key, ty)" and vs: "[] = filter P vs"
    by blast
  have tr: "truthy (t key)" using b unfolding P_def by (simp split: if_splits)
  have rs: "\<rho> sel = Some p" using b unfolding P_def by (simp split: if_splits)
  have v: "v \<noteq> []" using tr assms(5) by (simp add: truthy_def)
  have "(sel, key, ty) \<in> set bs" unfolding bs by simp
  then have selm: "sel \<in> set ?sels" by (metis fst_conv image_eqI set_map)
  have "find_node sel False 1 d = Some p" using rs by (simp add: querySelector_def \<rho>_def)
  from find_node_Some(1)[OF selm this]
  obtain e' where e': "node_at p d = Some e'" "marked ?sels e'" by blast
  have keep: "node_at p (fold ?g xs d') = node_at p d'"
    if "set xs \<subseteq> set bs" "\<forall>x \<in> set xs. \<not> P x" for xs d'
    using that
  proof (induction xs arbitrary: d')
    case Nil
    then show ?case by simp
  next
    case (Cons x xs)
    have xin: "x \<in> set bs" and np: "\<not> P x" using Cons.prems by simp_all
    have "x \<notin> set (filter P bs)" using np by simp
    then have "x \<notin> set (filter (\<lambda>(sel, key, ty). if truthy (t key) then \<rho> sel = Some p else False) bs)"
      unfolding P_def .
    from resolved_keeps_region[OF st xin e' this]
    have "node_at p (?g x d') = node_at p d'" .
    moreover have "node_at p (fold ?g xs (?g x d')) = node_at p (?g x d')"
      using Cons.IH[of "?g x d'"] Cons.prems by simp
    ultimately show ?case by simp
  qed
  have gb: "?g (sel, key, ty) = modify p (write_content parse ty v)"
    using rs assms(5) v by (simp add: resolved_def)
  have "set us \<subseteq> set bs" unfolding bs by auto
  from keep[OF this us, of d] have 1: "node_at p (fold ?g us d) = Some e"
    using assms(6) by simp
  have 2: "node_at p (?g (sel, key, ty) (fold ?g us d)) = Some (write_content parse ty v e)"
    unfolding gb by (rule node_at_modify_same[OF 1])
  have nvs: "\<forall>x \<in> set vs. \<not> P x" using vs by (metis filter_empty_conv)
  have "set vs \<subseteq> set bs" unfolding bs by auto
  from keep[OF this nvs]
  have 3: "node_at p (fold ?g vs d') = node_at p d'" for d' .
  from fold_resolved[OF assms(2,3) st, of bs]
  have "sync_regions parse t bs d = fold ?g bs d" by (simp add: sync_regions_def)
  also have "\<dots> = fold ?g vs (?g (sel, key, ty) (fold ?g us d))" unfolding bs by simp
  finally show ?thesis using 2 3 by simp
qed

subsection \<open>The body of the document\<close>

lemma classList_remove_simps [simp]:
  "is_element (classList_remove c n) = is_element n"
  "tagName (classList_remove c n) = tagName n"
  "childNodes (classList_remove c n) = childNodes n"
  "attributes (classList_remove c n) = attributes n"
  "classList (classList_remove c n) = remove_token c (classList n)"
  by (cases n; simp add: remove_token_def)+

lemma classList_add_simps [simp]:
  "is_element (classList_add c n) = is_element n"
  "tagName (classList_add c n) = tagName n"
  "childNodes (classList_add c n) = childNodes n"
  "attributes (classList_add c n) = attributes n"
  "is_element n \<Longrightarrow> classList (classList_add c n) = add_token c (classList n)"
  by (cases n; simp)+

lemma setAttribute_simps [simp]:
  "is_element (setAttribute a v n) = is_element n"
  "tagName (setAttribute a v n) = tagName n"
  "childNodes (setAttribute a v n) = childNodes n"
  "classList (setAttribute a v n) = classList n"
  "is_element n \<Longrightarrow> attributes (setAttribute a v n) = AList.update a v (attributes n)"
  by (cases n; simp)+

lemma keeps_frame_simps [simp]:
  "keeps_frame (classList_remove c)" "keeps_frame (classList_add c)" "keeps_frame (setAttribute a v)"
  unfolding keeps_frame_def by simp_all

lemma modify_tag:
  assumes "\<forall>n. is_element (f n) = is_element n \<and> tagName (f n) = tagName n"
  shows "is_element (modify p f n) = is_element n \<and> tagName (modify p f n) = tagName n"
  using assms by (cases p; cases n) auto

lemma first_body_update:
  assumes "is_element n' = is_element (ch ! k)" "tagName n' = tagName (ch ! k)"
  shows "first_body j (ch[k := n']) = first_body j ch"
  using assms
proof (induction ch arbitrary: k j)
  case Nil
  then show ?case by simp
next
  case (Cons a ch)
  then show ?case by (cases k) auto
qed

lemma body_modify:
  assumes "keeps_frame f"
  shows "body (modify p f d) = body d"
proof (cases p)
  case Nil
  then show ?thesis using assms by (simp add: body_def keeps_frame_def)
next
  case (Cons k q)
  show ?thesis
  proof (cases d)
    case (TextNode t)
    then show ?thesis using Cons by simp
  next
    case (Element tg cl at ch)
    have "first_body 0 (ch[k := modify q f (ch ! k)]) = first_body 0 ch"
      using assms modify_tag[of f q "ch ! k"] by (intro first_body_update) (auto simp: keeps_frame_def)
    then show ?thesis using Cons Element by (simp add: body_def)
  qed
qed

lemma attributes_modify:
  assumes "\<forall>n. attributes (g n) = attributes n"
  shows "attributes (modify q g e) = attributes e"
  using assms by (cases q; cases e) auto

lemma class_mem_modify:
  assumes "\<forall>n. (c \<in> set (classList (g n))) = (c \<in> set (classList n))"
  shows "(c \<in> set (classList (modify q g e))) = (c \<in> set (classList e))"
  using assms by (cases q; cases e) auto

lemma body_element_modify:
  assumes "keeps_frame g" "body_element d = Some e"
  shows "\<exists>q. body_element (modify p g d) = Some (modify q g e) \<or> body_element (modify p g d) = Some e"
proof -
  from assms(2) obtain b where b: "body d = Some b" "node_at b d = Some e"
    by (auto simp: body_element_def split: option.splits)
  then obtain tg cl at ch k where d: "d = Element tg cl at ch" "b = [k]" "k < length ch" "e = ch ! k"
    by (cases d) (auto simp: body_def split: if_splits)
  have b': "body (modify p g d) = Some [k]" using body_modify[OF assms(1)] b d by simp
  show ?thesis
  proof (cases p)
    case Nil
    have "childNodes (g d) = ch" using assms(1) d by (simp add: keeps_frame_def)
    moreover have "is_element (g d)" using assms(1) d by (simp add: keeps_frame_def)
    ultimately have "node_at [k] (g d) = Some e" using d by (cases "g d") auto
    then show ?thesis using b' Nil by (simp add: body_element_def)
  next
    case (Cons k' q)
    then show ?thesis using b' d by (auto simp: body_element_def nth_list_update)
  qed
qed

lemma first_body_bound:
  "first_body j ch = Some k \<Longrightarrow> j \<le> k \<and> k - j < length ch \<and> is_element (ch ! (k - j))"
proof (induction ch arbitrary: j)
  case Nil
  then show ?case by simp
next
  case (Cons a ch)
  show ?case
  proof (cases "is_element a \<and> (tagName a = ''body'' \<or> tagName a = ''frameset'')")
    case True
    with Cons.prems show ?thesis by auto
  next
    case False
    with Cons.prems have "first_body (Suc j) ch = Some k" by auto
    from Cons.IH[OF this] show ?thesis by (auto simp: Suc_diff_Suc less_eq_Suc_le)
  qed
qed

lemma body_SomeD:
  assumes "body d = Some b"
  shows "\<exists>tg cl at ch k. d = Element tg cl at ch \<and> b = [k] \<and> k < length ch \<and> is_element (ch ! k)"
proof -
  from assms obtain tg cl at ch where d: "d = Element tg cl at ch"
    by (cases d) (auto simp: body_def)
  from assms d obtain k where k: "b = [k]" "first_body 0 ch = Some k"
    by (auto simp: body_def split: if_splits)
  from first_body_bound[OF k(2)] d k show ?thesis by simp
qed

lemma body_element_modify_body:
  assumes "keeps_frame g" "body d = Some b"
  shows "\<exists>e. body_element d = Some e \<and> is_element e \<and> body_element (modify b g d) = Some (g e)"
proof -
  from body_SomeD[OF assms(2)] obtain tg cl at ch k where
    d: "d = Element tg cl at ch" "b = [k]" "k < length ch" "is_element (ch ! k)" by blast
  have "body (modify b g d) = Some [k]" using body_modify[OF assms(1), of b d] assms(2) d by simp
  then show ?thesis using d assms(2) by (simp add: body_element_def)
qed

lemma body_facts_close_dropdown:
  "body_dir (close_dropdown d) = body_dir d \<and>
   body_has_class ''ltr'' (close_dropdown d) = body_has_class ''ltr'' d"
proof (cases "querySelector (Sel [Class ''lang-dropdown'']) d")
  case None
  then show ?thesis by (simp add: close_dropdown_def)
next
  case (Some p)
  let ?g = "classList_remove ''show''"
  show ?thesis
  proof (cases "body_element d")
    case None
    then have "body d = None \<or> (\<exists>b. body d = Some b \<and> node_at b d = None)"
      by (auto simp: body_element_def split: option.splits)
    then have "body d = None" using body_SomeD by fastforce
    then have "body_element (modify p ?g d) = None"
      using body_modify[of ?g p d] by (simp add: body_element_def)
    with None Some show ?thesis by (simp add: close_dropdown_def body_dir_def body_has_class_def)
  next
    case (Some e)
    from body_element_modify[OF _ Some, of ?g p] obtain q where
      "body_element (modify p ?g d) = Some (modify q ?g e) \<or> body_element (modify p ?g d) = Some e"
      by auto
    moreover have "attributes (modify q ?g e) = attributes e"
      by (rule attributes_modify) simp
    moreover have "(''ltr'' \<in> set (classList (modify q ?g e))) = (''ltr'' \<in> set (classList e))"
      by (rule class_mem_modify) (simp add: remove_token_def)
    ultimately show ?thesis using Some \<open>querySelector (Sel [Class ''lang-dropdown'']) d = Some p\<close>
      by (auto simp: close_dropdown_def body_dir_def body_has_class_def getAttribute_def)
  qed
qed

lemma map_of_update: "map_of (AList.update a v xs) a = Some v"
  by (simp add: update_conv')

lemma body_facts_set_direction:
  assumes "body d = Some b"
  shows "body_dir (set_direction lang b d) = Some (if lang = ''ar'' then ''rtl'' else ''ltr'') \<and>
         body_has_class ''ltr'' (set_direction lang b d) = (lang \<noteq> ''ar'')"
proof -
  let ?c = "if lang = ''ar'' then classList_remove ''ltr'' else classList_add ''ltr''"
  let ?a = "setAttribute ''dir'' (if lang = ''ar'' then ''rtl'' else ''ltr'')"
  have sd: "set_direction lang b d = modify b ?a (modify b ?c d)"
    by (simp add: set_direction_def)
  have kc: "keeps_frame ?c" and ka: "keeps_frame ?a" by simp_all
  from body_element_modify_body[OF kc assms] obtain e where
    e: "is_element e" "body_element (modify b ?c d) = Some (?c e)" by blast
  have "body (modify b ?c d) = Some b" using body_modify[OF kc] assms by simp
  from body_element_modify_body[OF ka this] e
  have "body_element (modify b ?a (modify b ?c d)) = Some (?a (?c e))" by simp
  then show ?thesis unfolding sd using e(1)
    by (simp add: body_dir_def body_has_class_def getAttribute_def map_of_update
        remove_token_def add_token_def)
qed

subsection \<open>Loading and changing the language\<close>

lemma updateElement_skip:
  "\<not> truthy content \<or> querySelector selector doc = None \<Longrightarrow>
   updateElement parse selector content type doc = doc"
  by (auto simp: updateElement_def truthy_def split: option.splits)

lemma sync_regions_append:
  "sync_regions parse t (xs @ ys) doc = sync_regions parse t ys (sync_regions parse t xs doc)"
  by (simp add: sync_regions_def)

lemma requests_updateUI [simp]: "requests (updateUI parse s) = requests s"
  by (simp add: updateUI_def split: option.splits)

lemma currentLang_updateUI [simp]: "currentLang (updateUI parse s) = currentLang s"
  by (simp add: updateUI_def split: option.splits)

lemma translationsMap_updateUI [simp]: "translationsMap (updateUI parse s) = translationsMap s"
  by (simp add: updateUI_def split: option.splits)

lemma currentLang_changeLanguage:
  "currentLang (state_of (changeLanguage parse net lang s)) = lang"
  by (simp add: changeLanguage_def Let_def split: option.splits)

lemma loadLanguage_failure:
  "net (resource_url lang) = NetworkError \<or> (\<exists>st b. net (resource_url lang) = Response False st b)
     \<or> (\<exists>st. net (resource_url lang) = Response True st None) \<Longrightarrow>
   loadLanguage net lang s = s\<lparr>requests := requests s @ [resource_url lang],
      console := console s @ [''Failed to load language file for '' @ lang @ '':'']\<rparr>"
  by (auto simp: loadLanguage_def load_failed_def)

lemma requests_loadLanguage: "requests (loadLanguage net lang s) = requests s @ [resource_url lang]"
  by (simp add: loadLanguage_def load_failed_def Let_def split: response.splits option.splits)

lemma translationsMap_loadLanguage:
  "translationsMap s l \<noteq> None \<Longrightarrow> translationsMap (loadLanguage net lang s) l \<noteq> None"
  by (simp add: loadLanguage_def load_failed_def Let_def split: response.splits option.splits)

lemma requests_changeLanguage:
  "requests (state_of (changeLanguage parse net lang s)) =
     (if lang \<noteq> currentLang s \<and> translationsMap s lang = None
      then requests s @ [resource_url lang] else requests s)"
  by (simp add: changeLanguage_def Let_def requests_loadLanguage split: option.splits)

lemma translationsMap_changeLanguage_eq:
  "translationsMap (state_of (changeLanguage parse net lang s)) =
     (if lang \<noteq> currentLang s \<and> translationsMap s lang = None
      then translationsMap (loadLanguage net lang s) else translationsMap s)"
  by (simp add: changeLanguage_def Let_def split: option.splits)

lemma translationsMap_changeLanguage:
  "translationsMap s l \<noteq> None \<Longrightarrow> translationsMap (state_of (changeLanguage parse net lang s)) l \<noteq> None"
  using translationsMap_loadLanguage[of s l net lang]
  by (simp add: translationsMap_changeLanguage_eq del: not_None_eq)

lemma resource_url_inj: "resource_url a = resource_url b \<Longrightarrow> a = b"
  by (simp add: resource_url_def)

lemma run_session_requests:
  "translationsMap s l \<noteq> None \<Longrightarrow>
   \<exists>new. requests (run_session parse es s) = requests s @ new \<and> resource_url l \<notin> set new"
proof (induction es arbitrary: s)
  case Nil
  then show ?case by simp
next
  case (Cons e es)
  obtain net lang where e: "e = (net, lang)" by (cases e)
  let ?s1 = "state_of (changeLanguage parse net lang s)"
  from Cons.prems have c: "translationsMap ?s1 l \<noteq> None"
    by (rule translationsMap_changeLanguage)
  from Cons.IH[OF c] obtain new where
    n: "requests (run_session parse es ?s1) = requests ?s1 @ new" "resource_url l \<notin> set new"
    by blast
  show ?case
  proof (cases "lang \<noteq> currentLang s \<and> translationsMap s lang = None")
    case True
    with Cons.prems have "lang \<noteq> l" by auto
    then have "resource_url l \<notin> set (resource_url lang # new)"
      using n(2) resource_url_inj by auto
    moreover have "requests (run_session parse (e # es) s) = requests s @ (resource_url lang # new)"
      using n(1) True by (simp add: e requests_changeLanguage)
    ultimately show ?thesis by blast
  next
    case False
    then have "requests (run_session parse (e # es) s) = requests s @ new"
      using n(1) by (simp add: e requests_changeLanguage)
    then show ?thesis using n(2) by blast
  qed
qed

subsection \<open>The slider\<close>

lemma js_mod_pos: "0 \<le> a \<Longrightarrow> 0 < b \<Longrightarrow> js_mod a b = Some (a mod b)"
  by (simp add: js_mod_def js_rem_def sgn_if)

lemma showSlide_in_range:
  assumes "0 \<le> i" "i < slideCount s"
  shows "showSlide (Some i) s =
     Returned (s\<lparr>slides := (map (remove_token ''active'') (slides s))[nat i :=
                    add_token ''active'' (remove_token ''active'' (slides s ! nat i))],
                currentSlide := i\<rparr>)"
  using assms by (simp add: showSlide_def slideCount_def Let_def)

lemma filter_eq_upt: "k < n \<Longrightarrow> filter (\<lambda>j. j = k) [0..<n] = [k]"
proof (induction n)
  case 0
  then show ?case by simp
next
  case (Suc n)
  show ?case
  proof (cases "k = n")
    case True
    have "filter (\<lambda>j. j = n) [0..<n] = []" by (simp add: filter_empty_conv)
    with True show ?thesis by simp
  next
    case False
    with Suc show ?thesis by simp
  qed
qed

lemma active_slides_shown:
  assumes "0 \<le> i" "i < slideCount s"
  shows "active_slides (shown i s) = [nat i]"
proof -
  let ?n = "length (slides s)"
  have n: "nat i < ?n" using assms by (simp add: slideCount_def)
  have "\<And>j. j < ?n \<Longrightarrow> (''active'' \<in> set (slides (shown i s) ! j)) = (j = nat i)"
    using n by (auto simp: shown_def nth_list_update remove_token_def add_token_def)
  then have "filter (\<lambda>j. ''active'' \<in> set (slides (shown i s) ! j)) [0..<?n]
             = filter (\<lambda>j. j = nat i) [0..<?n]"
    by (intro filter_cong) auto
  moreover have "length (slides (shown i s)) = ?n" by (simp add: shown_def)
  ultimately show ?thesis using n by (simp add: active_slides_def filter_eq_upt)
qed

lemma showSlide_shown:
  "0 \<le> i \<Longrightarrow> i < slideCount s \<Longrightarrow> showSlide (Some i) s = Returned (shown i s)"
  by (simp add: showSlide_in_range shown_def)

lemma shown_simps [simp]:
  "currentSlide (shown i s) = i" "slideCount (shown i s) = slideCount s"
  by (simp_all add: shown_def slideCount_def)

lemma next_click_ok:
  assumes "0 < slideCount s" "0 \<le> currentSlide s"
  shows "next_click s = Returned (shown ((currentSlide s + 1) mod slideCount s) s)"
  using assms by (simp add: next_click_def js_mod_pos showSlide_shown)

lemma auto_advance_ok:
  assumes "0 < slideCount s" "0 \<le> currentSlide s"
  shows "auto_advance s = Returned (shown ((currentSlide s + 1) mod slideCount s) s)"
  using assms by (simp add: auto_advance_def js_mod_pos showSlide_shown)

lemma prev_click_ok:
  assumes "0 < slideCount s" "0 \<le> currentSlide s"
  shows "prev_click s = Returned (shown ((currentSlide s - 1 + slideCount s) mod slideCount s) s)"
  using assms by (simp add: prev_click_def js_mod_pos showSlide_shown)

lemma slider_step_ok:
  assumes "0 < slideCount s" "0 \<le> currentSlide s" "currentSlide s < slideCount s"
  shows "\<exists>i. 0 \<le> i \<and> i < slideCount s \<and> slider_step e s = Returned (shown i s)"
proof -
  have m: "\<And>x. 0 \<le> x mod slideCount s \<and> x mod slideCount s < slideCount s"
    using assms(1) by simp
  show ?thesis
  proof (cases e)
    case NextClick
    then show ?thesis using assms
      by (intro exI[of _ "(currentSlide s + 1) mod slideCount s"]) (simp add: next_click_ok)
  next
    case PrevClick
    then show ?thesis using assms
      by (intro exI[of _ "(currentSlide s - 1 + slideCount s) mod slideCount s"]) (simp add: prev_click_ok)
  next
    case TimerTick
    then show ?thesis using assms
      by (intro exI[of _ "(currentSlide s + 1) mod slideCount s"]) (simp add: auto_advance_ok)
  qed
qed

lemma slider_run_in_range:
  assumes "0 < slideCount s" "0 \<le> currentSlide s" "currentSlide s < slideCount s"
  shows "0 \<le> currentSlide (slider_run es s) \<and> currentSlide (slider_run es s) < slideCount s
         \<and> slideCount (slider_run es s) = slideCount s"
  using assms
proof (induction es arbitrary: s)
  case Nil
  then show ?case by simp
next
  case (Cons e es)
  from slider_step_ok[OF Cons.prems, of e] obtain i where
    i: "0 \<le> i" "i < slideCount s" "slider_step e s = Returned (shown i s)" by blast
  have "0 < slideCount (shown i s)" "0 \<le> currentSlide (shown i s)"
       "currentSlide (shown i s) < slideCount (shown i s)"
    using i Cons.prems by simp_all
  from Cons.IH[OF this] show ?case using i by simp
qed

subsection \<open>The countdown\<close>

lemma digits_examples: "digits 30 = ''30''" "digits 0 = ''0''"
  by (simp_all add: digits.simps digit_char_def)

lemma countdown_same_read:
  assumes "now_read tk = launch_read tk" "zone_shift tk = 0"
  shows "countdown_text tk = (''30'', ''00'', ''00'', ''00'')"
  using assms
  by (simp add: countdown_text_def countdown_fields_def remaining_def js_rem_def toString_def padStart2_def digits_examples)

lemma div_ge: "0 < d \<Longrightarrow> k * d \<le> a \<Longrightarrow> k \<le> a div (d::int)"
  using zdiv_mono1[of "k * d" a d] by simp
  

lemma never_zero:
  assumes "launch_read tk \<le> now_read tk" "now_read tk - launch_read tk < 1000"
     "\<bar>zone_shift tk\<bar> \<le> 3600000"
  shows "0 < remaining tk \<and> 29 \<le> fst (countdown_fields tk)"
proof -
  have r: "29 * 86400000 \<le> remaining tk" using assms by (simp add: remaining_def)
  then have "29 \<le> remaining tk div 86400000"
    by (intro div_ge) simp_all
  with r show ?thesis by (simp add: countdown_fields_def Let_def)
qed

subsection \<open>More on sessions and the slider\<close>

lemma run_session_keeps_cached:
  "translationsMap s l \<noteq> None \<Longrightarrow> translationsMap (run_session parse es s) l \<noteq> None"
proof (induction es arbitrary: s)
  case Nil
  then show ?case by simp
next
  case (Cons e es)
  obtain net lang where e: "e = (net, lang)" by (cases e)
  have "translationsMap (state_of (changeLanguage parse net lang s)) l \<noteq> None"
    by (rule translationsMap_changeLanguage[OF Cons.prems])
  from Cons.IH[OF this] show ?case by (simp add: e)
qed

lemma slider_run_append:
  "slider_run (xs @ ys) s = slider_run ys (slider_run xs s)"
  by (induction xs arbitrary: s) simp_all

lemma no_throw_in_range:
  assumes "0 < slideCount s" "0 \<le> currentSlide s" "currentSlide s < slideCount s"
  shows "no_throw es s"
  using assms
proof (induction es arbitrary: s)
  case Nil
  then show ?case by simp
next
  case (Cons e es)
  from slider_step_ok[OF Cons.prems, of e] obtain i where
    i: "0 \<le> i" "i < slideCount s" "slider_step e s = Returned (shown i s)" by blast
  have "no_throw es (shown i s)" using i Cons.prems by (intro Cons.IH) simp_all
  then show ?case using i by simp
qed

lemma active_after_run:
  assumes "0 < slideCount s" "0 \<le> currentSlide s" "currentSlide s < slideCount s" "es \<noteq> []"
  shows "active_slides (slider_run es s) = [nat (currentSlide (slider_run es s))]"
proof -
  from assms(4) obtain xs e where es: "es = xs @ [e]" by (cases es rule: rev_cases) auto
  let ?m = "slider_run xs s"
  from slider_run_in_range[OF assms(1-3), of xs]
  have m: "0 < slideCount ?m" "0 \<le> currentSlide ?m" "currentSlide ?m < slideCount ?m"
    using assms(1) by simp_all
  from slider_step_ok[OF m, of e] obtain i where
    i: "0 \<le> i" "i < slideCount ?m" "slider_step e ?m = Returned (shown i ?m)" by blast
  then have "slider_run es s = shown i ?m" by (simp add: es slider_run_append)
  then show ?thesis using active_slides_shown[OF i(1,2)] by simp
qed

lemma nexts_current:
  assumes "0 < slideCount s" "0 \<le> currentSlide s"
  shows "currentSlide (slider_run (replicate (Suc k) NextClick) s) =
           (currentSlide s + int (Suc k)) mod slideCount s \<and>
         slideCount (slider_run (replicate (Suc k) NextClick) s) = slideCount s"
  using assms
proof (induction k arbitrary: s)
  case 0
  then show ?case by (simp add: next_click_ok)
next
  case (Suc k)
  let ?s1 = "shown ((currentSlide s + 1) mod slideCount s) s"
  have 1: "0 < slideCount ?s1" "0 \<le> currentSlide ?s1" using Suc.prems by simp_all
  have "((currentSlide s + 1) mod slideCount s + int (Suc k)) mod slideCount s
        = (currentSlide s + int (Suc (Suc k))) mod slideCount s"
    by (simp add: mod_add_left_eq add.assoc)
  moreover have "slider_run (replicate (Suc (Suc k)) NextClick) s =
      slider_run (replicate (Suc k) NextClick) ?s1"
    using Suc.prems by (simp add: next_click_ok)
  ultimately show ?case using Suc.IH[OF 1] by (simp del: replicate.simps of_nat_Suc)
qed

lemma auto_advance_empty:
  assumes "slides s = []"
  shows "js_mod (currentSlide s + 1) (slideCount s) = None" "auto_advance s = Threw TypeError s"
  using assms by (simp_all add: js_mod_def slideCount_def auto_advance_def showSlide_def)

subsection \<open>The example inputs, evaluated\<close>

text \<open>
  The equations that evaluate a synchronisation step by step: a missing or empty value
  is skipped before any search of the document.
\<close>

lemmas example_defs = started_def started_fr_def started_nested_def unloaded_def page_def nested_page_def
  res_ar_def res_fr_def example_parser_def offline_def online_def resource_url_def

lemma updateElement_eval:
  "updateElement parse sel None ty doc = doc"
  "updateElement parse sel (Some []) ty doc = doc"
  "updateElement parse sel (Some (c # cs)) ty doc =
     (case querySelector sel doc of None \<Rightarrow> doc
      | Some p \<Rightarrow> modify p (write_content parse ty (c # cs)) doc)"
  by (simp_all add: updateElement_def split: option.splits)

lemmas sync_eval = updateUI_def sync_regions_def bindings_def apply_binding_def
  updateElement_eval querySelector_def data_key_def stat_label_def matches_compound_def
  set_textContent_def set_innerHTML_def set_placeholder_def

lemmas change_eval = changeLanguage_def loadLanguage_def Let_def updateUI_def
  mark_active_option_def show_current_lang_def querySelectorAll_def querySelector_def
  matches_compound_def body_def set_direction_def close_dropdown_def remove_token_def
  add_token_def set_textContent_def

lemma sync_page_fr: "sync_regions example_parser res_fr bindings page =
  Element ''html'' [] []
  [Element ''head'' [] [] [],
   Element ''body'' [] [(''dir'', ''rtl'')]
    [Element ''a'' [''lang-option'', ''active''] [(''data-lang'', ''ar'')]
      [TextNode ''AR''],
     Element ''a'' [''lang-option''] [(''data-lang'', ''fr'')]
      [TextNode ''FR''],
     Element ''span'' [''current-lang''] [] [TextNode ''AR''],
     Element ''div'' [''lang-dropdown'', ''show''] [] [],
     Element ''a'' [] [(''data-key'', ''home'')] [TextNode ''Accueil''],
     Element ''h1'' [] [(''data-key'', ''hero_title'')]
      [TextNode ''Bienvenue''],
     Element ''p'' [] [(''data-key'', ''features'')] [TextNode ''z''],
     Element ''input'' [] [(''data-key'', ''cta_placeholder'')] []]]"
  by (simp add: sync_eval example_defs)

lemma changed_fr:
  "changeLanguage example_parser online ''fr'' started =
     Returned (state_of (changeLanguage example_parser online ''fr'' started))"
  by (simp add: change_eval sync_page_fr started_def online_def resource_url_def)

lemma sync_nested_once:
  "sync_regions example_parser res_ar bindings nested_page =
     Element ''html'' [] []
       [Element ''body'' [] []
          [Element ''div'' [] [(''data-key'', ''features'')] [TextNode ''Features''],
           Element ''span'' [] [(''data-key'', ''home'')] [TextNode ''b'']]]"
  by (simp add: sync_eval example_defs)

lemma sync_nested_twice:
  "sync_regions example_parser res_ar bindings
     (Element ''html'' [] []
       [Element ''body'' [] []
          [Element ''div'' [] [(''data-key'', ''features'')] [TextNode ''Features''],
           Element ''span'' [] [(''data-key'', ''home'')] [TextNode ''b'']]]) =
     Element ''html'' [] []
       [Element ''body'' [] []
          [Element ''div'' [] [(''data-key'', ''features'')] [TextNode ''Features''],
           Element ''span'' [] [(''data-key'', ''home'')] [TextNode ''Home'']]]"
  by (simp add: sync_eval example_defs)

lemma bindings_read_no_placeholder:
  "\<not> list_ex (reads_attribute ''placeholder'') (map fst bindings)"
  by (simp add: bindings_def data_key_def stat_label_def)

lemma page_flat: "regions_flat (map fst bindings) page"
  by (simp add: page_def bindings_def data_key_def stat_label_def marked_def)

lemma page_markup_plain: "markup_plain_for example_parser started"
  by (simp add: markup_plain_for_def plain_markup_def started_def bindings_def res_ar_def
      example_parser_def)

lemma query_home_page: "querySelector (data_key ''home'') page = Some [1, 4]"
  by (simp add: querySelector_def data_key_def page_def matches_compound_def)

lemma started_fr_markup_plain: "markup_plain_for example_parser started_fr"
  by (simp add: markup_plain_for_def plain_markup_def started_fr_def bindings_def res_fr_def
      example_parser_def)

lemma features_bound: "(data_key ''features'', ''features'', Text) \<in> set bindings"
  by (simp add: bindings_def)

lemma query_features_page: "querySelector (data_key ''features'') page = Some [1, 6]"
  by (simp add: querySelector_def data_key_def page_def matches_compound_def)

lemma no_writers_features: "writers res_fr bindings page [1, 6] = []"
  by (simp add: writers_def bindings_def res_fr_def truthy_def querySelector_def data_key_def
      stat_label_def page_def matches_compound_def)

lemma sync_features_only_nested:
  "sync_regions example_parser res_features bindings nested_page =
     Element ''html'' [] []
       [Element ''body'' [] []
          [Element ''div'' [] [(''data-key'', ''features'')] [TextNode ''Features''],
           Element ''span'' [] [(''data-key'', ''home'')] [TextNode ''b'']]]"
  by (simp add: sync_eval nested_page_def res_features_def example_parser_def)

lemma sync_rating_stat_page:
  "sync_regions example_parser res_rating bindings stat_page =
     Element ''html'' [] []
       [Element ''body'' [] []
          [Element ''div'' [''stat-item''] []
             [Element ''span'' [''stat-label''] [(''data-key'', ''verified'')] [TextNode ''Rating'']],
           Element ''input'' [] [(''data-key'', ''cta_placeholder''), (''placeholder'', ''Your email'')] []]]"
  by (simp add: sync_eval stat_page_def res_rating_def example_parser_def)

lemma stat_page_flat: "regions_flat (map fst bindings) stat_page"
  by (simp add: stat_page_def bindings_def data_key_def stat_label_def marked_def)

lemma home_bound: "(data_key ''home'', ''home'', Text) \<in> set bindings"
  by (simp add: bindings_def)

lemma writers_home: "writers res_fr bindings page [1, 4] = [(data_key ''home'', ''home'', Text)]"
  by (simp add: writers_def bindings_def res_fr_def truthy_def querySelector_def data_key_def
      stat_label_def page_def matches_compound_def)

lemma query_placeholder_page: "querySelector (data_key ''cta_placeholder'') page = Some [1, 7]"
  by (simp add: querySelector_def data_key_def page_def matches_compound_def)

lemma page_nodes:
  "node_at [1, 4] page = Some (Element ''a'' [] [(''data-key'', ''home'')] [TextNode ''x''])"
  "node_at [1, 6] page = Some (Element ''p'' [] [(''data-key'', ''features'')] [TextNode ''z''])"
  "node_at [1, 7] page = Some (Element ''input'' [] [(''data-key'', ''cta_placeholder'')] [])"
  by (simp_all add: page_def)

section \<open>The claims\<close>

subsection \<open>C1: a failed load and the current language\<close>

text \<open>
  Claim C1 says that a failed load leaves the current language as it was, whether
  \<^verbatim>\<open>loadLanguage\<close> is called directly or through \<^verbatim>\<open>changeLanguage\<close>.
  \<^verbatim>\<open>loadLanguage\<close> does so; \<^verbatim>\<open>changeLanguage\<close> assigns the requested code
  after the load, failed or not. With Arabic loaded and current and the network down,
  \<^verbatim>\<open>loadLanguage('fr')\<close> leaves the current language at \<^verbatim>\<open>ar\<close>, and
  \<^verbatim>\<open>changeLanguage('fr')\<close> leaves it at \<^verbatim>\<open>fr\<close> with no resource for
  \<^verbatim>\<open>fr\<close> in the cache; the same with a response of status 404 for \<^verbatim>\<open>en\<close>.
\<close>

theorem changeLanguage_failed_load_moves_currentLang:
  "currentLang started = ''ar'' \<and> translationsMap started ''fr'' = None \<and>
   offline (resource_url ''fr'') = NetworkError \<and>
   currentLang (loadLanguage offline ''fr'' started) = ''ar'' \<and>
   currentLang (state_of (changeLanguage example_parser offline ''fr'' started)) = ''fr'' \<and>
   translationsMap (state_of (changeLanguage example_parser offline ''fr'' started)) ''fr'' = None \<and>
   online (resource_url ''en'') = Response False 404 None \<and>
   currentLang (loadLanguage online ''en'' started) = ''ar'' \<and>
   currentLang (state_of (changeLanguage example_parser online ''en'' started)) = ''en'' \<and>
   translationsMap (state_of (changeLanguage example_parser online ''en'' started)) ''en'' = None"
  by (simp add: currentLang_changeLanguage translationsMap_changeLanguage_eq
      loadLanguage_failure started_def offline_def online_def resource_url_def)

subsection \<open>C2: a cached resource is not fetched again\<close>

text \<open>
  Claim C2 as stated, that \<^verbatim>\<open>loadLanguage\<close> fetches only when the resource is not
  cached, fails: \<^verbatim>\<open>loadLanguage\<close> has no such test and sends its request for a
  code that is in the cache.
\<close>

theorem loadLanguage_fetches_cached_resource:
  "translationsMap started ''ar'' \<noteq> None \<and>
   requests (loadLanguage online ''ar'' started) = requests started @ [resource_url ''ar'']"
  by (simp add: requests_loadLanguage started_def)

text \<open>
  Claim C2, amended: \<^verbatim>\<open>loadLanguage\<close> always sends one request;
  \<^verbatim>\<open>changeLanguage\<close> sends one only when the code is not the current one and has no
  cached resource; so through any sequence of \<^verbatim>\<open>changeLanguage\<close> calls no request
  is sent for a code whose resource is cached, and that code stays cached.
\<close>

theorem cached_resource_not_fetched_again:
  "requests (loadLanguage net lang s) = requests s @ [resource_url lang] \<and>
   requests (state_of (changeLanguage parse net lang s)) =
     (if lang \<noteq> currentLang s \<and> translationsMap s lang = None
      then requests s @ [resource_url lang] else requests s) \<and>
   (translationsMap s l \<noteq> None \<longrightarrow>
      take (length (requests s)) (requests (run_session parse es s)) = requests s \<and>
      resource_url l \<notin> set (drop (length (requests s)) (requests (run_session parse es s))) \<and>
      translationsMap (run_session parse es s) l \<noteq> None)"
proof (intro conjI impI)
  show "requests (loadLanguage net lang s) = requests s @ [resource_url lang]"
    by (rule requests_loadLanguage)
  show "requests (state_of (changeLanguage parse net lang s)) =
     (if lang \<noteq> currentLang s \<and> translationsMap s lang = None
      then requests s @ [resource_url lang] else requests s)"
    by (rule requests_changeLanguage)
next
  assume c: "translationsMap s l \<noteq> None"
  from run_session_requests[OF c, of parse es] obtain new where
    n: "requests (run_session parse es s) = requests s @ new" "resource_url l \<notin> set new" by blast
  show "take (length (requests s)) (requests (run_session parse es s)) = requests s"
    using n by simp
  show "resource_url l \<notin> set (drop (length (requests s)) (requests (run_session parse es s)))"
    using n by simp
  show "translationsMap (run_session parse es s) l \<noteq> None"
    by (rule run_session_keeps_cached[OF c])
qed

theorem cached_resource_not_fetched_again_witness:
  "translationsMap started ''ar'' \<noteq> None \<and>
   take (length (requests started))
     (requests (run_session example_parser [(online, ''fr''), (offline, ''en''), (online, ''ar'')] started))
     = requests started \<and>
   resource_url ''ar'' \<notin> set (drop (length (requests started))
     (requests (run_session example_parser [(online, ''fr''), (offline, ''en''), (online, ''ar'')] started))) \<and>
   translationsMap (run_session example_parser [(online, ''fr''), (offline, ''en''), (online, ''ar'')] started) ''ar'' \<noteq> None"
proof -
  have h: "translationsMap started ''ar'' \<noteq> None" by (simp add: started_def)
  from cached_resource_not_fetched_again[of online "''ar''" started example_parser "''ar''"
      "[(online, ''fr''), (offline, ''en''), (online, ''ar'')]"] h
  show ?thesis by blast
qed

subsection \<open>C3: changing to the same language again\<close>

text \<open>
  Claim C3: after \<^verbatim>\<open>changeLanguage(code)\<close> the current language is \<open>code\<close>, and
  an immediately repeated \<^verbatim>\<open>changeLanguage(code)\<close> returns the state as it is:
  current language, cache, document, console and requests unchanged. This holds for
  every code and every state, loaded or not.
\<close>

theorem changeLanguage_repeat_is_noop:
  "currentLang (state_of (changeLanguage parse net lang s)) = lang \<and>
   changeLanguage parse' net' lang (state_of (changeLanguage parse net lang s)) =
     Returned (state_of (changeLanguage parse net lang s))"
  using currentLang_changeLanguage[of parse net lang s]
  by (simp add: changeLanguage_def[of parse' net'])

subsection \<open>C4: the text direction\<close>

text \<open>
  Claim C4: a switch to \<^verbatim>\<open>ar\<close> (a call of \<^verbatim>\<open>changeLanguage\<close> with a code
  other than the current one, on a document that has a body, so that the call returns)
  sets the \<^verbatim>\<open>dir\<close> attribute of the body to \<^verbatim>\<open>rtl\<close> and leaves it without
  the class \<^verbatim>\<open>ltr\<close>; a switch to any other code sets \<^verbatim>\<open>dir\<close> to
  \<^verbatim>\<open>ltr\<close> and leaves the body with the class \<^verbatim>\<open>ltr\<close>.
\<close>

theorem changeLanguage_sets_direction:
  assumes "lang \<noteq> currentLang s" "changeLanguage parse net lang s = Returned s'"
  shows "body_dir (document s') = Some (if lang = ''ar'' then ''rtl'' else ''ltr'') \<and>
         body_has_class ''ltr'' (document s') = (lang \<noteq> ''ar'')"
  using assms body_facts_set_direction body_facts_close_dropdown
  by (auto simp: changeLanguage_def Let_def split: option.splits)

theorem changeLanguage_sets_direction_witness:
  "''fr'' \<noteq> currentLang started \<and>
   changeLanguage example_parser online ''fr'' started =
     Returned (state_of (changeLanguage example_parser online ''fr'' started)) \<and>
   body_dir (document (state_of (changeLanguage example_parser online ''fr'' started))) = Some ''ltr'' \<and>
   body_has_class ''ltr'' (document (state_of (changeLanguage example_parser online ''fr'' started)))"
proof -
  have h1: "''fr'' \<noteq> currentLang started" by (simp add: started_def)
  from changeLanguage_sets_direction[OF h1 changed_fr] h1 changed_fr
  show ?thesis by simp
qed

subsection \<open>C5: synchronising twice\<close>

text \<open>
  Claim C5 as stated, for every document, fails: where a bound element lies inside
  another, the first pass writes the inner one and then replaces it with the text of
  the outer one, and the second pass finds the next element of the inner key.
\<close>

theorem updateUI_twice_differs_on_nested_regions:
  "document (updateUI example_parser (updateUI example_parser started_nested)) \<noteq>
   document (updateUI example_parser started_nested)"
  by (simp add: updateUI_def started_nested_def sync_nested_once sync_nested_twice)

text \<open>
  Claim C5, amended: on a document in which no element that carries a marker of a
  binding (a \<^verbatim>\<open>data-key\<close> of a bound key, the class \<^verbatim>\<open>stat-label\<close>) lies
  inside another, and with a resource whose markup values parse to nodes without such
  elements, \<^verbatim>\<open>updateUI\<close> applied twice leaves the document that one application
  leaves.
\<close>

theorem updateUI_idempotent_on_flat_regions:
  assumes "regions_flat (map fst bindings) (document s)" "markup_plain_for parse s"
  shows "document (updateUI parse (updateUI parse s)) = document (updateUI parse s)"
proof (cases "translationsMap s (currentLang s)")
  case None
  then show ?thesis by (simp add: updateUI_def)
next
  case (Some t)
  then have "plain_markup (map fst bindings) parse t bindings"
    using assms(2) by (simp add: markup_plain_for_def)
  from sync_regions_idem[OF assms(1) bindings_read_no_placeholder this] Some
  show ?thesis by (simp add: updateUI_def)
qed

theorem updateUI_idempotent_on_flat_regions_witness:
  "regions_flat (map fst bindings) (document started) \<and> markup_plain_for example_parser started \<and>
   document (updateUI example_parser (updateUI example_parser started)) =
   document (updateUI example_parser started)"
proof -
  have h1: "regions_flat (map fst bindings) (document started)"
    using page_flat by (simp add: started_def)
  from updateUI_idempotent_on_flat_regions[OF h1 page_markup_plain] h1 page_markup_plain
  show ?thesis by simp
qed

subsection \<open>C6: a missing translation and the content of a region\<close>

text \<open>
  Claim C6 as stated, that a region whose key is missing keeps its content through the
  call, fails where another binding writes over it: on a page with the \<^verbatim>\<open>home\<close>
  element inside the \<^verbatim>\<open>features\<close> element and a resource that has only
  \<^verbatim>\<open>features\<close>, the \<^verbatim>\<open>home\<close> element is replaced by the text of
  \<^verbatim>\<open>features\<close>; on a page without nesting whose \<^verbatim>\<open>verified\<close> element is
  also the first statistics label, a resource with \<^verbatim>\<open>customer_rating\<close> and without
  \<^verbatim>\<open>verified\<close> overwrites it.
\<close>

theorem absent_key_region_overwritten:
  "res_features ''home'' = None \<and>
   querySelector (data_key ''home'') (document features_only_nested) = Some [0, 0, 0] \<and>
   node_at [0, 0, 0] (document features_only_nested) =
     Some (Element ''span'' [] [(''data-key'', ''home'')] [TextNode ''a'']) \<and>
   node_at [0, 0, 0] (document (updateUI example_parser features_only_nested)) =
     Some (TextNode ''Features'') \<and>
   res_rating ''verified'' = None \<and>
   regions_flat (map fst bindings) (document rating_on_stat_page) \<and>
   querySelector (data_key ''verified'') (document rating_on_stat_page) = Some [0, 0, 0] \<and>
   node_at [0, 0, 0] (document rating_on_stat_page) =
     Some (Element ''span'' [''stat-label''] [(''data-key'', ''verified'')] [TextNode ''old'']) \<and>
   node_at [0, 0, 0] (document (updateUI example_parser rating_on_stat_page)) =
     Some (Element ''span'' [''stat-label''] [(''data-key'', ''verified'')] [TextNode ''Rating''])"
proof -
  have d1: "document (updateUI example_parser features_only_nested) =
      sync_regions example_parser res_features bindings nested_page"
    by (simp add: updateUI_def features_only_nested_def)
  have d2: "document (updateUI example_parser rating_on_stat_page) =
      sync_regions example_parser res_rating bindings stat_page"
    by (simp add: updateUI_def rating_on_stat_page_def)
  have n1: "document features_only_nested = nested_page"
    and n2: "document rating_on_stat_page = stat_page"
    by (simp_all add: features_only_nested_def rating_on_stat_page_def)
  have "res_features ''home'' = None" "res_rating ''verified'' = None"
    by (simp_all add: res_features_def res_rating_def)
  moreover have "querySelector (data_key ''home'') nested_page = Some [0, 0, 0]"
    "querySelector (data_key ''verified'') stat_page = Some [0, 0, 0]"
    by (simp_all add: nested_page_def stat_page_def querySelector_def data_key_def
        matches_compound_def)
  moreover have "node_at [0, 0, 0] nested_page =
     Some (Element ''span'' [] [(''data-key'', ''home'')] [TextNode ''a''])"
    "node_at [0, 0, 0] stat_page =
     Some (Element ''span'' [''stat-label''] [(''data-key'', ''verified'')] [TextNode ''old''])"
    by (simp_all add: nested_page_def stat_page_def)
  moreover have "node_at [0, 0, 0] (sync_regions example_parser res_features bindings nested_page)
      = Some (TextNode ''Features'')"
    "node_at [0, 0, 0] (sync_regions example_parser res_rating bindings stat_page) =
     Some (Element ''span'' [''stat-label''] [(''data-key'', ''verified'')] [TextNode ''Rating''])"
    by (simp_all add: sync_features_only_nested sync_rating_stat_page)
  ultimately show ?thesis unfolding d1 d2 n1 n2 using stat_page_flat by simp
qed

text \<open>
  Claim C6, amended. One step: with a value that is missing or empty, or with no
  element matching the selector, \<^verbatim>\<open>updateElement\<close> returns the document as it is;
  with a value that is present and not empty it leaves the first matching element with
  its tag, classes and attributes and with one text node of the value as its children
  (text mode) or the parsed value as its children (html mode), or with its children and
  the attribute \<^verbatim>\<open>placeholder\<close> set to the value on an \<^verbatim>\<open>input\<close> or
  \<^verbatim>\<open>textarea\<close> and unchanged on any other element (placeholder mode), and it
  leaves every node on a path that diverges from that element's as it was. The whole of
  \<^verbatim>\<open>updateUI\<close>, on a page where no marked element lies inside another and with
  a resource whose markup values parse to unmarked nodes: the first element a binding
  selects is left as it was when no binding with a present value selects it, and is
  left as that one step leaves it when exactly one binding with a present value
  selects it.
\<close>

theorem region_binding_effect:
  "(content = None \<or> content = Some [] \<or> querySelector selector doc = None \<longrightarrow>
      updateElement parse selector content type doc = doc) \<and>
   (v \<noteq> [] \<and> querySelector selector doc = Some p \<and>
    node_at p doc = Some (Element tg cl at ch) \<longrightarrow>
      node_at p (updateElement parse selector (Some v) Text doc) =
        Some (Element tg cl at [TextNode v]) \<and>
      node_at p (updateElement parse selector (Some v) Html doc) =
        Some (Element tg cl at (parse v)) \<and>
      node_at p (updateElement parse selector (Some v) Placeholder doc) =
        Some (Element tg cl (if tg = ''input'' \<or> tg = ''textarea''
                             then AList.update ''placeholder'' v at else at) ch) \<and>
      (diverge q p \<longrightarrow>
         node_at q (updateElement parse selector (Some v) type doc) = node_at q doc)) \<and>
   (translationsMap s (currentLang s) = Some r \<and>
    regions_flat (map fst bindings) (document s) \<and> markup_plain_for parse s \<and>
    (sel, k, ty) \<in> set bindings \<and> querySelector sel (document s) = Some p' \<and>
    node_at p' (document s) = Some (Element tg' cl' at' ch') \<longrightarrow>
      (writers r bindings (document s) p' = [] \<longrightarrow>
         node_at p' (document (updateUI parse s)) = Some (Element tg' cl' at' ch')) \<and>
      (writers r bindings (document s) p' = [(sel, k, ty)] \<and> r k = Some w \<longrightarrow>
         node_at p' (document (updateUI parse s)) =
           Some (case ty of
                   Text \<Rightarrow> Element tg' cl' at' [TextNode w]
                 | Html \<Rightarrow> Element tg' cl' at' (parse w)
                 | Placeholder \<Rightarrow>
                     Element tg' cl' (if tg' = ''input'' \<or> tg' = ''textarea''
                                      then AList.update ''placeholder'' w at' else at') ch')))"
proof (intro conjI impI)
  assume "content = None \<or> content = Some [] \<or> querySelector selector doc = None"
  then show "updateElement parse selector content type doc = doc"
    by (auto simp: updateElement_def split: option.splits)
next
  assume a: "v \<noteq> [] \<and> querySelector selector doc = Some p \<and>
    node_at p doc = Some (Element tg cl at ch)"
  then have u: "updateElement parse selector (Some v) ty0 doc =
      modify p (write_content parse ty0 v) doc" for ty0
    by (simp add: updateElement_writes)
  have n: "node_at p (modify p f doc) = Some (f (Element tg cl at ch))" for f
    using a by (simp add: node_at_modify_same)
  show "node_at p (updateElement parse selector (Some v) Text doc) =
        Some (Element tg cl at [TextNode v])"
    unfolding u n by (simp add: set_textContent_def)
  show "node_at p (updateElement parse selector (Some v) Html doc) =
        Some (Element tg cl at (parse v))"
    unfolding u n by (simp add: set_innerHTML_def)
  show "node_at p (updateElement parse selector (Some v) Placeholder doc) =
        Some (Element tg cl (if tg = ''input'' \<or> tg = ''textarea''
                             then AList.update ''placeholder'' v at else at) ch)"
    unfolding u n by (simp add: set_placeholder_def)
  assume "diverge q p"
  then show "node_at q (updateElement parse selector (Some v) type doc) = node_at q doc"
    unfolding u by (rule node_at_modify_diverge)
next
  assume a: "translationsMap s (currentLang s) = Some r \<and>
    regions_flat (map fst bindings) (document s) \<and> markup_plain_for parse s \<and>
    (sel, k, ty) \<in> set bindings \<and> querySelector sel (document s) = Some p' \<and>
    node_at p' (document s) = Some (Element tg' cl' at' ch')"
  then have pm: "plain_markup (map fst bindings) parse r bindings"
    by (auto simp: markup_plain_for_def)
  from a have f: "regions_flat (map fst bindings) (document s)"
    and m: "(sel, k, ty) \<in> set bindings"
    and q: "querySelector sel (document s) = Some p'"
    and e: "node_at p' (document s) = Some (Element tg' cl' at' ch')"
    and d: "document (updateUI parse s) = sync_regions parse r bindings (document s)"
    by (simp_all add: updateUI_def)
  {
    assume w: "writers r bindings (document s) p' = []"
    show "node_at p' (document (updateUI parse s)) = Some (Element tg' cl' at' ch')"
      unfolding d using sync_regions_keeps_region[OF f bindings_read_no_placeholder pm m q w] e
      by simp
  }
  {
    assume w: "writers r bindings (document s) p' = [(sel, k, ty)] \<and> r k = Some w"
    then have w1: "writers r bindings (document s) p' = [(sel, k, ty)]" and w2: "r k = Some w"
      by simp_all
    have "node_at p' (sync_regions parse r bindings (document s)) =
        Some (write_content parse ty w (Element tg' cl' at' ch'))"
      by (rule sync_regions_single_writer[OF f bindings_read_no_placeholder pm w1 w2 e])
    then show "node_at p' (document (updateUI parse s)) =
           Some (case ty of
                   Text \<Rightarrow> Element tg' cl' at' [TextNode w]
                 | Html \<Rightarrow> Element tg' cl' at' (parse w)
                 | Placeholder \<Rightarrow>
                     Element tg' cl' (if tg' = ''input'' \<or> tg' = ''textarea''
                                      then AList.update ''placeholder'' w at' else at') ch')"
      unfolding d
      by (cases ty) (simp_all add: set_textContent_def set_innerHTML_def set_placeholder_def)
  }
qed

theorem region_binding_effect_witness:
  "res_fr ''about'' = None \<and>
   updateElement example_parser (data_key ''about'') (res_fr ''about'') Text page = page \<and>
   ''Your email'' \<noteq> [] \<and>
   querySelector (data_key ''cta_placeholder'') page = Some [1, 7] \<and>
   node_at [1, 7] page = Some (Element ''input'' [] [(''data-key'', ''cta_placeholder'')] []) \<and>
   node_at [1, 7] (updateElement example_parser (data_key ''cta_placeholder'')
       (Some ''Your email'') Text page) =
     Some (Element ''input'' [] [(''data-key'', ''cta_placeholder'')] [TextNode ''Your email'']) \<and>
   node_at [1, 7] (updateElement example_parser (data_key ''cta_placeholder'')
       (Some ''Your email'') Html page) =
     Some (Element ''input'' [] [(''data-key'', ''cta_placeholder'')]
             (example_parser ''Your email'')) \<and>
   node_at [1, 7] (updateElement example_parser (data_key ''cta_placeholder'')
       (Some ''Your email'') Placeholder page) =
     Some (Element ''input'' []
             [(''data-key'', ''cta_placeholder''), (''placeholder'', ''Your email'')] []) \<and>
   diverge [1, 4] [1, 7] \<and>
   node_at [1, 4] (updateElement example_parser (data_key ''cta_placeholder'')
       (Some ''Your email'') Placeholder page) = node_at [1, 4] page \<and>
   translationsMap started_fr (currentLang started_fr) = Some res_fr \<and>
   regions_flat (map fst bindings) (document started_fr) \<and>
   markup_plain_for example_parser started_fr \<and>
   (data_key ''features'', ''features'', Text) \<in> set bindings \<and>
   querySelector (data_key ''features'') (document started_fr) = Some [1, 6] \<and>
   node_at [1, 6] (document started_fr) =
     Some (Element ''p'' [] [(''data-key'', ''features'')] [TextNode ''z'']) \<and>
   writers res_fr bindings (document started_fr) [1, 6] = [] \<and>
   node_at [1, 6] (document (updateUI example_parser started_fr)) =
     Some (Element ''p'' [] [(''data-key'', ''features'')] [TextNode ''z'']) \<and>
   (data_key ''home'', ''home'', Text) \<in> set bindings \<and>
   querySelector (data_key ''home'') (document started_fr) = Some [1, 4] \<and>
   node_at [1, 4] (document started_fr) =
     Some (Element ''a'' [] [(''data-key'', ''home'')] [TextNode ''x'']) \<and>
   writers res_fr bindings (document started_fr) [1, 4] = [(data_key ''home'', ''home'', Text)] \<and>
   res_fr ''home'' = Some ''Accueil'' \<and>
   node_at [1, 4] (document (updateUI example_parser started_fr)) =
     Some (Element ''a'' [] [(''data-key'', ''home'')] [TextNode ''Accueil''])"
proof -
  have h1: "res_fr ''about'' = None" and h2: "res_fr ''home'' = Some ''Accueil''"
    by (simp_all add: res_fr_def)
  have h3: "''Your email'' \<noteq> []" and h4: "diverge [1, 4] [1, 7]" by simp_all
  have doc: "document started_fr = page"
    and g1: "translationsMap started_fr (currentLang started_fr) = Some res_fr"
    by (simp_all add: started_fr_def)
  from region_binding_effect[where content = "res_fr ''about''"
      and selector = "data_key ''about''" and doc = page and parse = example_parser
      and type = Text]
  have a: "updateElement example_parser (data_key ''about'') (res_fr ''about'') Text page = page"
    using h1 by blast
  from region_binding_effect[where v = "''Your email''"
      and selector = "data_key ''cta_placeholder''" and doc = page and parse = example_parser
      and type = Placeholder and p = "[1, 7]" and q = "[1, 4]" and tg = "''input''"
      and cl = "[]" and at = "[(''data-key'', ''cta_placeholder'')]" and ch = "[]"]
    h3 h4 query_placeholder_page page_nodes(3)
  have b: "node_at [1, 7] (updateElement example_parser (data_key ''cta_placeholder'')
       (Some ''Your email'') Text page) =
     Some (Element ''input'' [] [(''data-key'', ''cta_placeholder'')] [TextNode ''Your email''])"
    "node_at [1, 7] (updateElement example_parser (data_key ''cta_placeholder'')
       (Some ''Your email'') Html page) =
     Some (Element ''input'' [] [(''data-key'', ''cta_placeholder'')]
             (example_parser ''Your email''))"
    "node_at [1, 7] (updateElement example_parser (data_key ''cta_placeholder'')
       (Some ''Your email'') Placeholder page) =
     Some (Element ''input'' []
             [(''data-key'', ''cta_placeholder''), (''placeholder'', ''Your email'')] [])"
    "node_at [1, 4] (updateElement example_parser (data_key ''cta_placeholder'')
       (Some ''Your email'') Placeholder page) = node_at [1, 4] page"
    by simp_all
  from region_binding_effect[where s = started_fr and r = res_fr and parse = example_parser
      and sel = "data_key ''features''" and k = "''features''" and ty = Text and p' = "[1, 6]"
      and tg' = "''p''" and cl' = "[]" and at' = "[(''data-key'', ''features'')]"
      and ch' = "[TextNode ''z'']"]
    g1 page_flat started_fr_markup_plain features_bound query_features_page page_nodes(2)
    no_writers_features
  have c: "node_at [1, 6] (document (updateUI example_parser started_fr)) =
     Some (Element ''p'' [] [(''data-key'', ''features'')] [TextNode ''z''])"
    by (simp add: doc)
  from region_binding_effect[where s = started_fr and r = res_fr and parse = example_parser
      and sel = "data_key ''home''" and k = "''home''" and ty = Text and p' = "[1, 4]"
      and tg' = "''a''" and cl' = "[]" and at' = "[(''data-key'', ''home'')]"
      and ch' = "[TextNode ''x'']" and w = "''Accueil''"]
    g1 page_flat started_fr_markup_plain home_bound query_home_page page_nodes(1)
    writers_home h2
  have d: "node_at [1, 4] (document (updateUI example_parser started_fr)) =
     Some (Element ''a'' [] [(''data-key'', ''home'')] [TextNode ''Accueil''])"
    by (simp add: doc)
  show ?thesis
    using h1 h2 h4 a b c d g1 page_flat started_fr_markup_plain features_bound home_bound
      query_placeholder_page query_features_page query_home_page page_nodes
      no_writers_features writers_home
    by (simp add: doc)
qed

subsection \<open>C7: synchronising without a resource\<close>

text \<open>
  Claim C7: with no resource cached for the current language, \<^verbatim>\<open>updateUI\<close> adds
  one line to the console and changes nothing else; the document is the one before.
\<close>

theorem updateUI_without_resource_aborts:
  assumes "translationsMap s (currentLang s) = None"
  shows "updateUI parse s =
           s\<lparr>console := console s @ [''No translations found for language: '' @ currentLang s]\<rparr> \<and>
         document (updateUI parse s) = document s"
  using assms by (simp add: updateUI_def)

theorem updateUI_without_resource_aborts_witness:
  "translationsMap unloaded (currentLang unloaded) = None \<and>
   updateUI example_parser unloaded =
     unloaded\<lparr>console := console unloaded @ [''No translations found for language: '' @ currentLang unloaded]\<rparr> \<and>
   document (updateUI example_parser unloaded) = page"
proof -
  have h: "translationsMap unloaded (currentLang unloaded) = None" by (simp add: unloaded_def)
  from updateUI_without_resource_aborts[OF h, of example_parser] h
  show ?thesis by (simp add: unloaded_def)
qed

subsection \<open>C8: next and previous on the slider\<close>

text \<open>
  Claim C8: with at least one slide and the current index within range, as many clicks
  on next as there are slides bring the current index back, with that slide the only
  active one, and a click on next followed by one on previous does the same; no
  handler throws on the way.
\<close>

theorem slider_next_prev_cycle:
  assumes "slides s \<noteq> []" "0 \<le> currentSlide s" "currentSlide s < slideCount s"
  shows "no_throw (replicate (length (slides s)) NextClick) s \<and>
         currentSlide (slider_run (replicate (length (slides s)) NextClick) s) = currentSlide s \<and>
         active_slides (slider_run (replicate (length (slides s)) NextClick) s) = [nat (currentSlide s)] \<and>
         no_throw [NextClick, PrevClick] s \<and>
         currentSlide (slider_run [NextClick, PrevClick] s) = currentSlide s \<and>
         active_slides (slider_run [NextClick, PrevClick] s) = [nat (currentSlide s)]"
proof -
  let ?n = "length (slides s)"
  have pos: "0 < slideCount s" using assms(1) by (simp add: slideCount_def)
  obtain k where k: "?n = Suc k" using assms(1) by (cases "slides s") auto
  have cyc: "currentSlide (slider_run (replicate ?n NextClick) s) = currentSlide s"
    using nexts_current[OF pos assms(2), of k] assms(2,3) k by (simp add: slideCount_def)
  have np: "currentSlide (slider_run [NextClick, PrevClick] s) = currentSlide s"
  proof -
    let ?s1 = "shown ((currentSlide s + 1) mod slideCount s) s"
    have "prev_click ?s1 = Returned (shown ((currentSlide ?s1 - 1 + slideCount ?s1) mod slideCount ?s1) ?s1)"
      using pos by (intro prev_click_ok) simp_all
    moreover have "((currentSlide s + 1) mod slideCount s - 1 + slideCount s) mod slideCount s
          = currentSlide s"
      using assms(2,3) by (simp add: mod_diff_left_eq)
    ultimately show ?thesis using pos assms(2) by (simp add: next_click_ok)
  qed
  have "replicate ?n NextClick \<noteq> []" using assms(1) by simp
  from active_after_run[OF pos assms(2,3) this] cyc
  have a1: "active_slides (slider_run (replicate ?n NextClick) s) = [nat (currentSlide s)]" by simp
  from active_after_run[OF pos assms(2,3), of "[NextClick, PrevClick]"] np
  have a2: "active_slides (slider_run [NextClick, PrevClick] s) = [nat (currentSlide s)]" by simp
  show ?thesis using cyc np a1 a2 no_throw_in_range[OF pos assms(2,3)] by blast
qed

theorem slider_next_prev_cycle_witness:
  "slides three_slides \<noteq> [] \<and> 0 \<le> currentSlide three_slides \<and>
   currentSlide three_slides < slideCount three_slides \<and>
   no_throw (replicate (length (slides three_slides)) NextClick) three_slides \<and>
   currentSlide (slider_run (replicate (length (slides three_slides)) NextClick) three_slides) =
     currentSlide three_slides \<and>
   active_slides (slider_run (replicate (length (slides three_slides)) NextClick) three_slides) =
     [nat (currentSlide three_slides)] \<and>
   no_throw [NextClick, PrevClick] three_slides \<and>
   currentSlide (slider_run [NextClick, PrevClick] three_slides) = currentSlide three_slides \<and>
   active_slides (slider_run [NextClick, PrevClick] three_slides) = [nat (currentSlide three_slides)]"
proof -
  have h1: "slides three_slides \<noteq> []" and h2: "0 \<le> currentSlide three_slides"
    and h3: "currentSlide three_slides < slideCount three_slides"
    by (simp_all add: three_slides_def initTestimonialSlider_def slideCount_def)
  from slider_next_prev_cycle[OF h1 h2 h3] h1 h2 h3 show ?thesis by blast
qed

subsection \<open>C9: the countdown\<close>

text \<open>
  Claim C9 as stated, that every tick shows the full offset, fails at a tick whose two
  clock readings differ: one millisecond between them and the display is
  29 days 23:59:59.
\<close>

theorem countdown_late_read_shows_less:
  "countdown_text late_tick = (''29'', ''23'', ''59'', ''59'') \<and>
   countdown_text late_tick \<noteq> (''30'', ''00'', ''00'', ''00'')"
  by (simp add: late_tick_def countdown_text_def countdown_fields_def remaining_def js_rem_def
      toString_def padStart2_def digits.simps digit_char_def)

text \<open>
  Claim C9, amended: every tick computes its target anew from its own first clock
  reading, so what it shows depends on no earlier tick. A tick whose two readings agree,
  with no change of the local offset in the 30 days, shows 30 days 00:00:00; a tick
  whose readings are less than a second apart, with a change of the offset of at most
  an hour, has a positive remaining time and shows at least 29 days: the countdown does
  not reach zero.
\<close>

theorem countdown_never_reaches_zero:
  "(now_read tk = launch_read tk \<and> zone_shift tk = 0 \<longrightarrow>
      countdown_text tk = (''30'', ''00'', ''00'', ''00'')) \<and>
   (launch_read tk \<le> now_read tk \<and> now_read tk - launch_read tk < 1000 \<and>
    \<bar>zone_shift tk\<bar> \<le> 3600000 \<longrightarrow>
      0 < remaining tk \<and> 29 \<le> fst (countdown_fields tk))"
  using countdown_same_read[of tk] never_zero[of tk] by blast

theorem countdown_never_reaches_zero_witness:
  "now_read prompt_tick = launch_read prompt_tick \<and> zone_shift prompt_tick = 0 \<and>
   countdown_text prompt_tick = (''30'', ''00'', ''00'', ''00'') \<and>
   launch_read prompt_tick \<le> now_read prompt_tick \<and>
   now_read prompt_tick - launch_read prompt_tick < 1000 \<and>
   \<bar>zone_shift prompt_tick\<bar> \<le> 3600000 \<and>
   0 < remaining prompt_tick \<and> 29 \<le> fst (countdown_fields prompt_tick)"
proof -
  have h: "now_read prompt_tick = launch_read prompt_tick" "zone_shift prompt_tick = 0"
    "launch_read prompt_tick \<le> now_read prompt_tick"
    "now_read prompt_tick - launch_read prompt_tick < 1000"
    "\<bar>zone_shift prompt_tick\<bar> \<le> 3600000"
    by (simp_all add: prompt_tick_def)
  from countdown_never_reaches_zero[of prompt_tick] h show ?thesis by blast
qed

subsection \<open>C10: the slider without slides\<close>

text \<open>
  Claim C10: without slides the next index of the timer step is the remainder of a
  division by zero (\<^verbatim>\<open>NaN\<close>) and the step throws a TypeError, leaving the state
  as it is; started with at least one slide, no step of any sequence of clicks and timer
  ticks throws, and the current index stays within range.
\<close>

theorem slider_without_slides_throws:
  "(slides s = [] \<longrightarrow>
      js_mod (currentSlide s + 1) (slideCount s) = None \<and> auto_advance s = Threw TypeError s) \<and>
   (found \<noteq> [] \<longrightarrow>
      no_throw es (initTestimonialSlider found) \<and>
      0 \<le> currentSlide (slider_run es (initTestimonialSlider found)) \<and>
      currentSlide (slider_run es (initTestimonialSlider found)) < int (length found))"
proof (intro conjI impI)
  assume "slides s = []"
  then show "js_mod (currentSlide s + 1) (slideCount s) = None"
    and "auto_advance s = Threw TypeError s"
    by (rule auto_advance_empty)+
next
  assume f: "found \<noteq> []"
  let ?s = "initTestimonialSlider found"
  have r: "0 < slideCount ?s" "0 \<le> currentSlide ?s" "currentSlide ?s < slideCount ?s"
    using f by (simp_all add: initTestimonialSlider_def slideCount_def)
  show "no_throw es ?s" by (rule no_throw_in_range[OF r])
  from slider_run_in_range[OF r, of es]
  show "0 \<le> currentSlide (slider_run es ?s)"
    and "currentSlide (slider_run es ?s) < int (length found)"
    by (simp_all add: initTestimonialSlider_def slideCount_def)
qed

theorem slider_without_slides_throws_witness:
  "slides (initTestimonialSlider []) = [] \<and>
   js_mod (currentSlide (initTestimonialSlider []) + 1) (slideCount (initTestimonialSlider [])) = None \<and>
   auto_advance (initTestimonialSlider []) = Threw TypeError (initTestimonialSlider []) \<and>
   [[''testimonial-slide''], [''testimonial-slide'', ''active'']] \<noteq> [] \<and>
   no_throw [TimerTick, TimerTick, PrevClick]
     (initTestimonialSlider [[''testimonial-slide''], [''testimonial-slide'', ''active'']]) \<and>
   0 \<le> currentSlide (slider_run [TimerTick, TimerTick, PrevClick]
     (initTestimonialSlider [[''testimonial-slide''], [''testimonial-slide'', ''active'']])) \<and>
   currentSlide (slider_run [TimerTick, TimerTick, PrevClick]
     (initTestimonialSlider [[''testimonial-slide''], [''testimonial-slide'', ''active'']]))
     < int (length [[''testimonial-slide''], [''testimonial-slide'', ''active'']])"
proof -
  have h1: "slides (initTestimonialSlider []) = []" by (simp add: initTestimonialSlider_def)
  have h2: "[[''testimonial-slide''], [''testimonial-slide'', ''active'']] \<noteq> []" by simp
  from slider_without_slides_throws[of "initTestimonialSlider []"
      "[[''testimonial-slide''], [''testimonial-slide'', ''active'']]"
      "[TimerTick, TimerTick, PrevClick]"] h1 h2
  show ?thesis by blast
qed

end
